theory Spec2Isabelle
  imports Complex_Main
begin

section \<open>JavaScript strings and values\<close>

text \<open>
  A JavaScript string is a sequence of UTF-16 code units; a code unit is modelled by its
  number, so \<open>length\<close> counts what \<^verbatim>\<open>.length\<close> counts. \<open>js\<close> turns an (ASCII) literal
  of the source into such a sequence.
\<close>

type_synonym jsstring = "nat list"

definition js :: "string \<Rightarrow> jsstring" where
  "js s = map of_char s"

text \<open>The decimal numeral a template literal inserts for a non-negative integer.\<close>

function decimal :: "nat \<Rightarrow> jsstring" where
  "decimal n = (if n < 10 then [48 + n] else decimal (n div 10) @ [48 + n mod 10])"
  by pat_completeness auto
termination
  by (relation "measure (\<lambda>n. n)") auto

declare decimal.simps [simp del]

text \<open>The number a string of decimal digits denotes.\<close>

definition digitsValue :: "jsstring \<Rightarrow> nat" where
  "digitsValue s = foldl (\<lambda>a d. 10 * a + (d - 48)) 0 s"

text \<open>
  The JavaScript values the modules handle: \<^verbatim>\<open>undefined\<close>, \<^verbatim>\<open>null\<close>, booleans, numbers,
  strings, arrays, and plain objects as the list of their own properties in creation
  order (a JavaScript object has each key once; the order in which it enumerates
  integer-like keys is not modelled, and no function below depends on it). A finite
  number is modelled by the real number it denotes; \<^verbatim>\<open>NaN\<close>, \<^verbatim>\<open>Infinity\<close> and \<^verbatim>\<open>-Infinity\<close>
  are values of their own. The read of a property yields a \<open>jsvalue option\<close>: \<open>None\<close>
  when the object has no such property (the read is \<^verbatim>\<open>undefined\<close> then, too).
\<close>

datatype jsvalue =
    JUndefined
  | JNull
  | JBool bool
  | JNum real
  | JNaN
  | JPosInfinity
  | JNegInfinity
  | JStr jsstring
  | JArr "jsvalue list"
  | JObj "(jsstring \<times> jsvalue) list"

datatype jstype = TUndefined | TObject | TBoolean | TNumber | TString

fun typeof :: "jsvalue option \<Rightarrow> jstype" where
  "typeof None = TUndefined"
| "typeof (Some JUndefined) = TUndefined"
| "typeof (Some JNull) = TObject"
| "typeof (Some (JBool b)) = TBoolean"
| "typeof (Some (JNum x)) = TNumber"
| "typeof (Some JNaN) = TNumber"
| "typeof (Some JPosInfinity) = TNumber"
| "typeof (Some JNegInfinity) = TNumber"
| "typeof (Some (JStr s)) = TString"
| "typeof (Some (JArr xs)) = TObject"
| "typeof (Some (JObj kvs)) = TObject"

text \<open>Truthiness, as \<^verbatim>\<open>!v\<close> and \<^verbatim>\<open>if (v)\<close> test it.\<close>

fun truthy :: "jsvalue option \<Rightarrow> bool" where
  "truthy None = False"
| "truthy (Some JUndefined) = False"
| "truthy (Some JNull) = False"
| "truthy (Some (JBool b)) = b"
| "truthy (Some (JNum x)) = (x \<noteq> 0)"
| "truthy (Some JNaN) = False"
| "truthy (Some JPosInfinity) = True"
| "truthy (Some JNegInfinity) = True"
| "truthy (Some (JStr s)) = (s \<noteq> [])"
| "truthy (Some (JArr xs)) = True"
| "truthy (Some (JObj kvs)) = True"

text \<open>\<^verbatim>\<open>v === undefined\<close> for a property read \<open>v\<close>.\<close>

fun isUndefined :: "jsvalue option \<Rightarrow> bool" where
  "isUndefined None = True"
| "isUndefined (Some JUndefined) = True"
| "isUndefined (Some v) = False"

text \<open>
  The exceptions that can arise: each carries its \<^verbatim>\<open>message\<close>. A failing Web Storage
  access raises a DOMException (SecurityError, QuotaExceededError).
\<close>

datatype exn =
    SyntaxError jsstring
  | TypeError jsstring
  | Error jsstring
  | DOMException jsstring

fun message :: "exn \<Rightarrow> jsstring" where
  "message (SyntaxError m) = m"
| "message (TypeError m) = m"
| "message (Error m) = m"
| "message (DOMException m) = m"

text \<open>
  Own properties. An array owns \<^verbatim>\<open>length\<close> and its indices; an object owns the keys of
  its list. The source reads only the properties \<^verbatim>\<open>tasks\<close>, \<^verbatim>\<open>settings\<close> and the task
  fields with \<open>getProp\<close>, none of which \<^verbatim>\<open>Object.prototype\<close> or \<^verbatim>\<open>Array.prototype\<close>
  defines, so the read of an absent own property is \<open>undefined\<close>.
\<close>

fun arrayIndex :: "jsvalue list \<Rightarrow> jsstring \<Rightarrow> jsvalue option" where
  "arrayIndex xs k =
     (case filter (\<lambda>i. decimal i = k) [0..<length xs] of
        [] \<Rightarrow> None
      | i # _ \<Rightarrow> Some (xs ! i))"

fun getProp :: "jsvalue \<Rightarrow> jsstring \<Rightarrow> jsvalue option" where
  "getProp (JObj kvs) k = map_of kvs k"
| "getProp (JArr xs) k =
     (if k = js ''length'' then Some (JNum (real (length xs))) else arrayIndex xs k)"
| "getProp v k = None"

text \<open>
  The call \<^verbatim>\<open>task.hasOwnProperty(field)\<close>. The method is looked up on the receiver first:
  an object that owns a property named \<^verbatim>\<open>hasOwnProperty\<close> shadows the inherited method,
  and since no JSON value is callable the call raises a TypeError. Otherwise
  \<^verbatim>\<open>Object.prototype.hasOwnProperty\<close> runs.
\<close>

definition hasOwnProperty :: "jsvalue \<Rightarrow> jsstring \<Rightarrow> exn + bool" where
  "hasOwnProperty receiver field =
     (case getProp receiver (js ''hasOwnProperty'') of
        Some shadow \<Rightarrow> Inl (TypeError (js ''task.hasOwnProperty is not a function''))
      | None \<Rightarrow> Inr (getProp receiver field \<noteq> None))"

text \<open>
  \<^verbatim>\<open>Array.prototype.filter\<close> with a callback that may raise: the callback runs on the
  elements in order and the first exception ends the call.
\<close>

fun filterE :: "('a \<Rightarrow> exn + bool) \<Rightarrow> 'a list \<Rightarrow> exn + 'a list" where
  "filterE p [] = Inr []"
| "filterE p (x # xs) =
     (case p x of
        Inl e \<Rightarrow> Inl e
      | Inr keep \<Rightarrow>
          (case filterE p xs of
             Inl e \<Rightarrow> Inl e
           | Inr ys \<Rightarrow> Inr (if keep then x # ys else ys)))"

subsection \<open>JSON texts\<close>

text \<open>
  The strings the storage module handles are JSON texts, and it does three things with
  them: test them for truthiness, hand them to \<^verbatim>\<open>JSON.parse\<close>, and obtain them from
  \<^verbatim>\<open>JSON.stringify\<close>. Such a string is modelled by what these operations see of it: it
  is empty (falsy, and rejected by the parser), or non-empty and rejected by the parser
  with the engine's message, or a text that the parser reads as a value. (The parser
  returns \<^verbatim>\<open>Infinity\<close> for a numeral such as \<^verbatim>\<open>1e999\<close>; it returns neither \<^verbatim>\<open>undefined\<close> nor
  \<^verbatim>\<open>NaN\<close>, so a text of such a value stands for no string.)
\<close>

datatype jstext =
    EmptyText
  | Malformed jsstring
  | Stringified jsvalue

fun JSON_parse :: "jstext \<Rightarrow> exn + jsvalue" where
  "JSON_parse EmptyText = Inl (SyntaxError (js ''Unexpected end of JSON input''))"
| "JSON_parse (Malformed m) = Inl (SyntaxError m)"
| "JSON_parse (Stringified v) = Inr v"

text \<open>
  \<^verbatim>\<open>JSON.stringify\<close> does not write every value as it is: \<^verbatim>\<open>NaN\<close>, \<^verbatim>\<open>Infinity\<close> and
  \<^verbatim>\<open>-Infinity\<close> are written as \<^verbatim>\<open>null\<close>, an element of an array that is \<^verbatim>\<open>undefined\<close> is
  written as \<^verbatim>\<open>null\<close>, and a property of an object whose value is \<^verbatim>\<open>undefined\<close> is left
  out. \<open>asWritten v\<close> is the value that the text written for \<open>v\<close> denotes. The source
  applies \<^verbatim>\<open>JSON.stringify\<close> to arrays and to an object literal only, for which it
  returns a string.
\<close>

fun asWritten :: "jsvalue \<Rightarrow> jsvalue" where
  "asWritten JUndefined = JNull"
| "asWritten JNull = JNull"
| "asWritten (JBool b) = JBool b"
| "asWritten (JNum x) = JNum x"
| "asWritten JNaN = JNull"
| "asWritten JPosInfinity = JNull"
| "asWritten JNegInfinity = JNull"
| "asWritten (JStr s) = JStr s"
| "asWritten (JArr xs) = JArr (map asWritten xs)"
| "asWritten (JObj kvs) =
     JObj (map (\<lambda>(k, v). (k, asWritten v)) (filter (\<lambda>(k, v). v \<noteq> JUndefined) kvs))"

definition JSON_stringify :: "jsvalue \<Rightarrow> jstext" where
  "JSON_stringify v = Stringified (asWritten v)"

text \<open>Truthiness of what \<^verbatim>\<open>getItem\<close> returns: \<open>None\<close> is \<^verbatim>\<open>null\<close>.\<close>

fun present :: "jstext option \<Rightarrow> bool" where
  "present None = False"
| "present (Some EmptyText) = False"
| "present (Some t) = True"

subsection \<open>Web Storage\<close>

text \<open>
  A storage area holds its entries; every access raises when the area is blocked (the
  browser denies storage), and \<^verbatim>\<open>setItem\<close> raises when the area does not accept the
  write (the quota is exceeded).
\<close>

record webstorage =
  entries :: "jsstring \<rightharpoonup> jstext"
  blocked :: bool
  accepts :: "jsstring \<Rightarrow> jstext \<Rightarrow> bool"

definition getItem :: "webstorage \<Rightarrow> jsstring \<Rightarrow> exn + jstext option" where
  "getItem area k =
     (if blocked area then Inl (DOMException (js ''SecurityError''))
      else Inr (entries area k))"

definition setItem :: "webstorage \<Rightarrow> jsstring \<Rightarrow> jstext \<Rightarrow> exn + webstorage" where
  "setItem area k v =
     (if blocked area then Inl (DOMException (js ''SecurityError''))
      else if accepts area k v then Inr (area\<lparr>entries := (entries area)(k \<mapsto> v)\<rparr>)
      else Inl (DOMException (js ''QuotaExceededError'')))"

record browser =
  localStorage :: webstorage
  sessionStorage :: webstorage

section \<open>Regular expressions and string methods\<close>

text \<open>
  The regular expressions of the source use character classes, sequence, \<^verbatim>\<open>?\<close>, \<^verbatim>\<open>*\<close>, \<^verbatim>\<open>+\<close>
  and the bounded repetition \<^verbatim>\<open>{0,n}\<close>. They are terms of the following type; \<open>RZero\<close>
  (no string) and \<open>REps\<close> (the empty string) arise while matching.
\<close>

datatype regex =
    RZero
  | REps
  | RClass "nat \<Rightarrow> bool"
  | RAlt regex regex
  | RSeq regex regex
  | RStar regex

definition optional :: "regex \<Rightarrow> regex" where
  "optional r = RAlt REps r"

definition oneOrMore :: "regex \<Rightarrow> regex" where
  "oneOrMore r = RSeq r (RStar r)"

fun repeatUpTo :: "nat \<Rightarrow> regex \<Rightarrow> regex" where
  "repeatUpTo 0 r = REps"
| "repeatUpTo (Suc n) r = optional (RSeq r (repeatUpTo n r))"

text \<open>
  Matching by derivatives: \<open>rderiv c r\<close> matches the strings \<open>w\<close> for which \<open>r\<close> matches
  \<open>c # w\<close>. \<open>test r s\<close> is \<^verbatim>\<open>/^r$/.test(s)\<close>: without the \<^verbatim>\<open>m\<close> flag the anchors are the two
  ends of the string, so the whole string must match.
\<close>

fun nullable :: "regex \<Rightarrow> bool" where
  "nullable RZero = False"
| "nullable REps = True"
| "nullable (RClass p) = False"
| "nullable (RAlt r s) = (nullable r \<or> nullable s)"
| "nullable (RSeq r s) = (nullable r \<and> nullable s)"
| "nullable (RStar r) = True"

fun rderiv :: "nat \<Rightarrow> regex \<Rightarrow> regex" where
  "rderiv c RZero = RZero"
| "rderiv c REps = RZero"
| "rderiv c (RClass p) = (if p c then REps else RZero)"
| "rderiv c (RAlt r s) = RAlt (rderiv c r) (rderiv c s)"
| "rderiv c (RSeq r s) =
     (if nullable r then RAlt (RSeq (rderiv c r) s) (rderiv c s) else RSeq (rderiv c r) s)"
| "rderiv c (RStar r) = RSeq (rderiv c r) (RStar r)"

fun test :: "regex \<Rightarrow> jsstring \<Rightarrow> bool" where
  "test r [] = nullable r"
| "test r (c # s) = test (rderiv c r) s"

text \<open>The strings a regular expression denotes, for the proofs.\<close>

inductive_set star :: "jsstring set \<Rightarrow> jsstring set" for A :: "jsstring set" where
  star_empty: "[] \<in> star A"
| star_step: "u \<in> A \<Longrightarrow> v \<in> star A \<Longrightarrow> u @ v \<in> star A"

fun lang :: "regex \<Rightarrow> jsstring set" where
  "lang RZero = {}"
| "lang REps = {[]}"
| "lang (RClass p) = {[c] | c. p c}"
| "lang (RAlt r s) = lang r \<union> lang s"
| "lang (RSeq r s) = {u @ v | u v. u \<in> lang r \<and> v \<in> lang s}"
| "lang (RStar r) = star (lang r)"

subsection \<open>Character classes\<close>

definition isDigit :: "nat \<Rightarrow> bool" where
  "isDigit c = (48 \<le> c \<and> c \<le> 57)"

text \<open>\<^verbatim>\<open>[a-zA-Z]\<close>\<close>

definition isAlpha :: "nat \<Rightarrow> bool" where
  "isAlpha c = ((97 \<le> c \<and> c \<le> 122) \<or> (65 \<le> c \<and> c \<le> 90))"

text \<open>\<^verbatim>\<open>[a-zA-Z0-9]\<close>\<close>

definition isAlnum :: "nat \<Rightarrow> bool" where
  "isAlnum c = (isAlpha c \<or> isDigit c)"

text \<open>\<^verbatim>\<open>[a-zA-Z0-9-]\<close>\<close>

definition isLabelChar :: "nat \<Rightarrow> bool" where
  "isLabelChar c = (isAlnum c \<or> c = 45)"

text \<open>
  The class of the local part: letters, digits, and the characters
  \<^verbatim>\<open>. ! # $ % & ' * + / = ? ^ _ ` { | } ~ -\<close> (39 is the apostrophe, 96 the backquote).
\<close>

definition isLocalChar :: "nat \<Rightarrow> bool" where
  "isLocalChar c = (isAlnum c \<or> c \<in> set (js ''.!#$%&*+/=?^_{|}~-'' @ [39, 96]))"

definition isChar :: "char \<Rightarrow> nat \<Rightarrow> bool" where
  "isChar ch c = (c = of_char ch)"

subsection \<open>String methods\<close>

text \<open>
  The characters \<^verbatim>\<open>trim\<close> removes: the white space and line terminator code units of
  ECMAScript (tab, line feed, vertical tab, form feed, carriage return, space, no-break
  space, U+1680, U+2000 to U+200A, U+2028, U+2029, U+202F, U+205F, U+3000, U+FEFF).
\<close>

definition isWhiteSpace :: "nat \<Rightarrow> bool" where
  "isWhiteSpace c =
     ((9 \<le> c \<and> c \<le> 13) \<or> c = 32 \<or> c = 160 \<or> c = 5760 \<or> (8192 \<le> c \<and> c \<le> 8202) \<or>
      c = 8232 \<or> c = 8233 \<or> c = 8239 \<or> c = 8287 \<or> c = 12288 \<or> c = 65279)"

definition trim :: "jsstring \<Rightarrow> jsstring" where
  "trim s = rev (dropWhile isWhiteSpace (rev (dropWhile isWhiteSpace s)))"

text \<open>\<^verbatim>\<open>s.split(c)\<close> for a separator of one character: never the empty array.\<close>

fun split :: "nat \<Rightarrow> jsstring \<Rightarrow> jsstring list" where
  "split sep [] = [[]]"
| "split sep (c # s) =
     (if c = sep then [] # split sep s
      else (case split sep s of
              [] \<Rightarrow> [[c]]
            | piece # pieces \<Rightarrow> (c # piece) # pieces))"

definition startsWith :: "jsstring \<Rightarrow> jsstring \<Rightarrow> bool" where
  "startsWith s p = (take (length p) s = p)"

definition endsWith :: "jsstring \<Rightarrow> jsstring \<Rightarrow> bool" where
  "endsWith s p = (length p \<le> length s \<and> drop (length s - length p) s = p)"

fun includes_str :: "jsstring \<Rightarrow> jsstring \<Rightarrow> bool" where
  "includes_str [] p = (p = [])"
| "includes_str (c # s) p = (startsWith (c # s) p \<or> includes_str s p)"

text \<open>An element of an array by index: \<open>None\<close> is \<^verbatim>\<open>undefined\<close>.\<close>

definition element :: "'a list \<Rightarrow> nat \<Rightarrow> 'a option" where
  "element xs i = (if i < length xs then Some (xs ! i) else None)"

section \<open>The email validation module\<close>

text \<open>
  The regular expression of \<open>isValidEmail\<close>,
  \<^verbatim>\<open>^[a-zA-Z0-9.!#$%&'*+\/=?^_`{|}~-]+@LABEL(?:\.LABEL)*$\<close> where \<^verbatim>\<open>LABEL\<close> is
  \<^verbatim>\<open>[a-zA-Z0-9](?:[a-zA-Z0-9-]{0,61}[a-zA-Z0-9])?\<close>.
\<close>

definition labelRegex :: regex where
  "labelRegex =
     RSeq (RClass isAlnum)
       (optional (RSeq (repeatUpTo 61 (RClass isLabelChar)) (RClass isAlnum)))"

definition emailRegex :: regex where
  "emailRegex =
     RSeq (oneOrMore (RClass isLocalChar))
       (RSeq (RClass (isChar CHR ''@''))
         (RSeq labelRegex (RStar (RSeq (RClass (isChar CHR ''.'')) labelRegex))))"

text \<open>
  The loop over the domain labels of \<open>isValidEmail\<close>: \<open>False\<close> is its \<^verbatim>\<open>return false\<close>,
  \<open>True\<close> its normal end.
\<close>

fun checkLabels :: "jsstring list \<Rightarrow> bool" where
  "checkLabels [] = True"
| "checkLabels (label # labels) =
     (if length label = 0 \<or> length label > 63 then False
      else if startsWith label (js ''-'') \<or> endsWith label (js ''-'') then False
      else if \<not> test (oneOrMore (RClass isLabelChar)) label then False
      else checkLabels labels)"

text \<open>
  The argument is a string, so \<^verbatim>\<open>typeof email !== 'string'\<close> is false and \<^verbatim>\<open>!email\<close> holds
  of the empty string only. \<^verbatim>\<open>/[a-zA-Z]/.test(localPart)\<close> has no anchors: it holds when
  some character of the string is a letter.
\<close>

definition isValidEmail :: "jsstring \<Rightarrow> bool" where
  "isValidEmail email0 =
     (if email0 = [] then False
      else
        (let email = trim email0 in
         if length email = 0 \<or> length email > 254 then False
         else if \<not> test emailRegex email then False
         else
           (let localPart = hd (split 64 email); domain = element (split 64 email) 1 in
            if localPart = [] \<or> length localPart = 0 \<or> length localPart > 64 then False
            else if \<not> list_ex isAlpha localPart then False
            else if startsWith localPart (js ''.'') \<or> endsWith localPart (js ''.'') then False
            else if includes_str localPart (js ''..'') then False
            else
              (case domain of
                 None \<Rightarrow> False
               | Some domain \<Rightarrow>
                   if domain = [] \<or> length domain > 253 then False
                   else if \<not> includes_str domain (js ''.'') then False
                   else if startsWith domain (js ''.'') \<or> endsWith domain (js ''.'') \<or>
                     startsWith domain (js ''-'') \<or> endsWith domain (js ''-'') then False
                   else
                     (let domainLabels = split 46 domain in
                      if \<not> checkLabels domainLabels then False
                      else
                        (let tld = last domainLabels in
                         if length tld < 2 \<or> \<not> test (oneOrMore (RClass isAlpha)) tld then False
                         else True))))))"

text \<open>\<open>None\<close> is the result \<^verbatim>\<open>null\<close>.\<close>

definition getEmailValidationError :: "jsstring \<Rightarrow> jsstring option" where
  "getEmailValidationError email0 =
     (if email0 = [] then Some (js ''Email address is required'')
      else
        (let email = trim email0 in
         if length email = 0 then Some (js ''Email address is required'')
         else if length email > 254
           then Some (js ''Email address is too long (maximum 254 characters)'')
         else if \<not> includes_str email (js ''@'')
           then Some (js ''Email address must contain @ symbol'')
         else
           (let atCount = length (filter (\<lambda>c. c = 64) email) in
            if atCount > 1 then Some (js ''Email address can only contain one @ symbol'')
            else
              (let localPart = hd (split 64 email); domain = element (split 64 email) 1 in
               if localPart = [] \<or> length localPart = 0
                 then Some (js ''Email address must have at least one character before @'')
               else if \<not> list_ex isAlpha localPart
                 then Some (js ''Username must contain at least one letter'')
               else if length localPart > 64
                 then Some (js ''Local part is too long (maximum 64 characters)'')
               else if startsWith localPart (js ''.'') \<or> endsWith localPart (js ''.'')
                 then Some (js ''Local part cannot start or end with a dot'')
               else if includes_str localPart (js ''..'')
                 then Some (js ''Local part cannot contain consecutive dots'')
               else
                 (case domain of
                    None \<Rightarrow> Some (js ''Email address must have a domain after @'')
                  | Some domain \<Rightarrow>
                      if domain = [] then Some (js ''Email address must have a domain after @'')
                      else if \<not> includes_str domain (js ''.'')
                        then Some (js ''Domain must contain at least one dot'')
                      else if startsWith domain (js ''.'') \<or> endsWith domain (js ''.'')
                        then Some (js ''Domain cannot start or end with a dot'')
                      else if startsWith domain (js ''-'') \<or> endsWith domain (js ''-'')
                        then Some (js ''Domain cannot start or end with a hyphen'')
                      else
                        (let domainLabels = split 46 domain;
                             tld = last domainLabels in
                         if length tld < 2
                           then Some (js ''Top-level domain must be at least 2 characters'')
                         else if \<not> test (oneOrMore (RClass isAlpha)) tld
                           then Some (js ''Top-level domain must contain only letters'')
                         else if \<not> isValidEmail email
                           then Some (js ''Please enter a valid email address'')
                         else None))))))"

section \<open>The storage module\<close>

definition STORAGE_KEY :: jsstring where
  "STORAGE_KEY = js ''campus-life-planner-data''"

definition SETTINGS_KEY :: jsstring where
  "SETTINGS_KEY = js ''campus-life-planner-settings''"

subsection \<open>generateId\<close>

definition substr :: "jsstring \<Rightarrow> nat \<Rightarrow> nat \<Rightarrow> jsstring" where
  "substr s start len = take len (drop start s)"

text \<open>
  The arguments are what the platform returns at the call: \<^verbatim>\<open>Date.now()\<close>, the milliseconds
  since the epoch, and \<^verbatim>\<open>Math.random().toString(36)\<close>, the random number written in base 36
  (\<^verbatim>\<open>0.\<close> and its digits, or \<^verbatim>\<open>0\<close>).
\<close>

definition generateId :: "nat \<Rightarrow> jsstring \<Rightarrow> jsstring" where
  "generateId now random36 = js ''task_'' @ decimal now @ js ''_'' @ substr random36 2 9"

subsection \<open>generateTimestamp\<close>

text \<open>
  \<^verbatim>\<open>new Date()\<close> reads the clock; the Date it returns is modelled by its UTC fields (what
  \<^verbatim>\<open>getUTCFullYear\<close>, \<^verbatim>\<open>getUTCMonth() + 1\<close>, \<^verbatim>\<open>getUTCDate\<close>, ... return), for the years from
  0 on. \<^verbatim>\<open>toISOString\<close> prints them zero-padded as \<^verbatim>\<open>YYYY-MM-DDTHH:mm:ss.sssZ\<close>, and a year
  beyond 9999 as \<^verbatim>\<open>+YYYYYY\<close>.
\<close>

record date =
  utcFullYear :: nat
  utcMonth :: nat
  utcDate :: nat
  utcHours :: nat
  utcMinutes :: nat
  utcSeconds :: nat
  utcMilliseconds :: nat

definition padStart :: "nat \<Rightarrow> jsstring \<Rightarrow> jsstring" where
  "padStart w s = replicate (w - length s) 48 @ s"

definition toISOString :: "date \<Rightarrow> jsstring" where
  "toISOString d =
     (if utcFullYear d \<le> 9999 then padStart 4 (decimal (utcFullYear d))
      else js ''+'' @ padStart 6 (decimal (utcFullYear d)))
     @ js ''-'' @ padStart 2 (decimal (utcMonth d))
     @ js ''-'' @ padStart 2 (decimal (utcDate d))
     @ js ''T'' @ padStart 2 (decimal (utcHours d))
     @ js '':'' @ padStart 2 (decimal (utcMinutes d))
     @ js '':'' @ padStart 2 (decimal (utcSeconds d))
     @ js ''.'' @ padStart 3 (decimal (utcMilliseconds d))
     @ js ''Z''"

text \<open>The argument is the Date that \<^verbatim>\<open>new Date()\<close> returns at the call.\<close>

definition generateTimestamp :: "date \<Rightarrow> jsstring" where
  "generateTimestamp now = toISOString now"

text \<open>
  The Dates of the platform: a day of the calendar (the largest year of a Date is
  275760) and a time of the day.
\<close>

definition leapYear :: "nat \<Rightarrow> bool" where
  "leapYear y = (y mod 4 = 0 \<and> (y mod 100 \<noteq> 0 \<or> y mod 400 = 0))"

definition daysInMonth :: "nat \<Rightarrow> nat \<Rightarrow> nat" where
  "daysInMonth y m =
     (if m = 2 then (if leapYear y then 29 else 28)
      else if m = 4 \<or> m = 6 \<or> m = 9 \<or> m = 11 then 30
      else 31)"

definition valid_date :: "date \<Rightarrow> bool" where
  "valid_date d =
     (utcFullYear d \<le> 275760 \<and> 1 \<le> utcMonth d \<and> utcMonth d \<le> 12 \<and>
      1 \<le> utcDate d \<and> utcDate d \<le> daysInMonth (utcFullYear d) (utcMonth d) \<and>
      utcHours d < 24 \<and> utcMinutes d < 60 \<and> utcSeconds d < 60 \<and>
      utcMilliseconds d < 1000)"

text \<open>
  Reading an ISO-8601 timestamp in UTC with milliseconds: a year of four digits, or of
  six digits after a plus sign, then \<^verbatim>\<open>-MM-DDTHH:mm:ss.sssZ\<close>. The result is the Date the
  string denotes, and \<open>None\<close> when the string has another shape or its fields denote no
  day of the calendar or time of the day.
\<close>

definition maskChar :: "char \<Rightarrow> nat \<Rightarrow> bool" where
  "maskChar m c = (if m = CHR ''d'' then isDigit c else c = of_char m)"

definition iso8601_date :: "jsstring \<Rightarrow> date option" where
  "iso8601_date s =
     (let n = length s - 20; y = take n s; rest = drop n s in
      if (list_all2 maskChar ''dddd'' y \<or> list_all2 maskChar ''+dddddd'' y) \<and>
         list_all2 maskChar ''-dd-ddTdd:dd:dd.dddZ'' rest
      then
        (let d = \<lparr>utcFullYear = digitsValue (filter isDigit y),
                  utcMonth = digitsValue (take 2 (drop 1 rest)),
                  utcDate = digitsValue (take 2 (drop 4 rest)),
                  utcHours = digitsValue (take 2 (drop 7 rest)),
                  utcMinutes = digitsValue (take 2 (drop 10 rest)),
                  utcSeconds = digitsValue (take 2 (drop 13 rest)),
                  utcMilliseconds = digitsValue (take 3 (drop 16 rest))\<rparr>
         in if valid_date d then Some d else None)
      else None)"

text \<open>An ISO-8601 timestamp: a string that reads as a Date.\<close>

definition is_iso8601 :: "jsstring \<Rightarrow> bool" where
  "is_iso8601 s = (iso8601_date s \<noteq> None)"

subsection \<open>loadTasks\<close>

text \<open>
  \<^verbatim>\<open>loadSeedData\<close> is called by \<open>loadTasks\<close> and defined nowhere in the sources at hand: it
  is a parameter, a computation on the browser state that returns an array of tasks or
  raises. Likewise \<^verbatim>\<open>createAutomaticBackup\<close>, called by \<open>saveTasks\<close>.
\<close>

type_synonym 'a computation = "browser \<Rightarrow> (exn + 'a) \<times> browser"

text \<open>
  The first block of the \<^verbatim>\<open>try\<close>: \<open>Inr (Some ts)\<close> is \<^verbatim>\<open>return tasks\<close>, \<open>Inr None\<close> falls
  through to the next statement, \<open>Inl e\<close> is a raised exception.
\<close>

definition loadTasks_primary :: "browser \<Rightarrow> exn + jsvalue list option" where
  "loadTasks_primary b =
     (case getItem (localStorage b) STORAGE_KEY of
        Inl e \<Rightarrow> Inl e
      | Inr data \<Rightarrow>
          if present data then
            (case JSON_parse (the data) of
               Inl e \<Rightarrow> Inl e
             | Inr (JArr ts) \<Rightarrow> if length ts > 0 then Inr (Some ts) else Inr None
             | Inr other \<Rightarrow> Inr None)
          else Inr None)"

text \<open>The second block: the backup in sessionStorage, written back to localStorage.\<close>

definition loadTasks_backup :: "browser \<Rightarrow> (exn + jsvalue list option) \<times> browser" where
  "loadTasks_backup b =
     (case getItem (sessionStorage b) (STORAGE_KEY @ js ''_backup'') of
        Inl e \<Rightarrow> (Inl e, b)
      | Inr backupData \<Rightarrow>
          if present backupData then
            (case JSON_parse (the backupData) of
               Inl e \<Rightarrow> (Inl e, b)
             | Inr (JArr backupTasks) \<Rightarrow>
                 if length backupTasks > 0 then
                   (case setItem (localStorage b) STORAGE_KEY (the backupData) of
                      Inl e \<Rightarrow> (Inl e, b)
                    | Inr l \<Rightarrow> (Inr (Some backupTasks), b\<lparr>localStorage := l\<rparr>))
                 else (Inr None, b)
             | Inr other \<Rightarrow> (Inr None, b))
          else (Inr None, b))"

text \<open>The body of the \<^verbatim>\<open>try\<close>.\<close>

definition loadTasks_try :: "jsvalue list computation \<Rightarrow> jsvalue list computation" where
  "loadTasks_try loadSeedData b =
     (case loadTasks_primary b of
        Inl e \<Rightarrow> (Inl e, b)
      | Inr (Some ts) \<Rightarrow> (Inr ts, b)
      | Inr None \<Rightarrow>
          (case loadTasks_backup b of
             (Inl e, b') \<Rightarrow> (Inl e, b')
           | (Inr (Some backupTasks), b') \<Rightarrow> (Inr backupTasks, b')
           | (Inr None, b') \<Rightarrow> loadSeedData b'))"

definition loadTasks :: "jsvalue list computation \<Rightarrow> jsvalue list computation" where
  "loadTasks loadSeedData b =
     (case loadTasks_try loadSeedData b of
        (Inr ts, b') \<Rightarrow> (Inr ts, b')
      | (Inl error, b') \<Rightarrow>
          (case loadSeedData b' of
             (Inr seed, b'') \<Rightarrow> (Inr seed, b'')
           | (Inl seedError, b'') \<Rightarrow> (Inr [], b'')))"

subsection \<open>saveTasks\<close>

definition saveTasks_try ::
  "(jsvalue list \<Rightarrow> unit computation) \<Rightarrow> jsvalue list \<Rightarrow> bool computation" where
  "saveTasks_try createAutomaticBackup ts b =
     (case setItem (localStorage b) STORAGE_KEY (JSON_stringify (JArr ts)) of
        Inl e \<Rightarrow> (Inl e, b)
      | Inr l \<Rightarrow>
          if length ts > 0 then
            (case createAutomaticBackup ts (b\<lparr>localStorage := l\<rparr>) of
               (Inl e, b') \<Rightarrow> (Inl e, b')
             | (Inr u, b') \<Rightarrow> (Inr True, b'))
          else (Inr True, b\<lparr>localStorage := l\<rparr>))"

definition saveTasks ::
  "(jsvalue list \<Rightarrow> unit computation) \<Rightarrow> jsvalue list \<Rightarrow> bool computation" where
  "saveTasks createAutomaticBackup ts b =
     (case saveTasks_try createAutomaticBackup ts b of
        (Inr r, b') \<Rightarrow> (Inr r, b')
      | (Inl error, b') \<Rightarrow>
          (case setItem (sessionStorage b') (STORAGE_KEY @ js ''_backup'')
                  (JSON_stringify (JArr ts)) of
             Inl backupError \<Rightarrow> (Inr False, b')
           | Inr s \<Rightarrow> (Inr False, b'\<lparr>sessionStorage := s\<rparr>)))"

subsection \<open>loadSettings\<close>

definition defaultSettings :: "(jsstring \<times> jsvalue) list" where
  "defaultSettings =
     [(js ''timeUnit'', JStr (js ''hours'')),
      (js ''dateFormat'', JStr (js ''YYYY-MM-DD'')),
      (js ''dueReminders'', JBool True),
      (js ''goalAlerts'', JBool True),
      (js ''durationCap'', JNum 40),
      (js ''caseSensitiveSearch'', JBool False)]"

text \<open>
  Object spread, \<^verbatim>\<open>{...a, ...b}\<close>: the own enumerable properties of each operand are
  assigned in turn to the new object. An assignment replaces the value of a key the
  object has and adds any other key at the end. An array and a string spread their
  indices; null, booleans and numbers spread nothing.
\<close>

fun setProp :: "jsstring \<Rightarrow> jsvalue \<Rightarrow> (jsstring \<times> jsvalue) list \<Rightarrow> (jsstring \<times> jsvalue) list" where
  "setProp k v [] = [(k, v)]"
| "setProp k v ((k', v') # kvs) =
     (if k' = k then (k, v) # kvs else (k', v') # setProp k v kvs)"

fun ownEnumerable :: "jsvalue \<Rightarrow> (jsstring \<times> jsvalue) list" where
  "ownEnumerable (JObj kvs) = kvs"
| "ownEnumerable (JArr xs) = zip (map decimal [0..<length xs]) xs"
| "ownEnumerable (JStr s) = zip (map decimal [0..<length s]) (map (\<lambda>c. JStr [c]) s)"
| "ownEnumerable v = []"

definition spread :: "(jsstring \<times> jsvalue) list \<Rightarrow> jsvalue \<Rightarrow> (jsstring \<times> jsvalue) list" where
  "spread obj v = foldl (\<lambda>acc (k, x). setProp k x acc) obj (ownEnumerable v)"

definition loadSettings_try :: "browser \<Rightarrow> exn + jsvalue" where
  "loadSettings_try b =
     (case getItem (localStorage b) SETTINGS_KEY of
        Inl e \<Rightarrow> Inl e
      | Inr data \<Rightarrow>
          if present data then
            (case JSON_parse (the data) of
               Inl e \<Rightarrow> Inl e
             | Inr parsed \<Rightarrow> Inr (JObj (spread (spread [] (JObj defaultSettings)) parsed)))
          else Inr (JObj defaultSettings))"

definition loadSettings :: "browser \<Rightarrow> exn + jsvalue" where
  "loadSettings b =
     (case loadSettings_try b of
        Inr s \<Rightarrow> Inr s
      | Inl error \<Rightarrow>
          Inr (JObj
            [(js ''timeUnit'', JStr (js ''hours'')),
             (js ''dateFormat'', JStr (js ''YYYY-MM-DD'')),
             (js ''dueReminders'', JBool True),
             (js ''goalAlerts'', JBool True),
             (js ''durationCap'', JNum 40),
             (js ''caseSensitiveSearch'', JBool False)]))"

subsection \<open>exportData\<close>

text \<open>
  The third argument is the Date of the call. The indentation argument of
  \<^verbatim>\<open>JSON.stringify\<close> changes the white space of the text only.
\<close>

definition exportData :: "jsvalue list \<Rightarrow> jsvalue \<Rightarrow> date \<Rightarrow> jstext" where
  "exportData ts st now =
     JSON_stringify (JObj
       [(js ''version'', JStr (js ''1.0'')),
        (js ''exportedAt'', JStr (generateTimestamp now)),
        (js ''tasks'', JArr ts),
        (js ''settings'', st)])"

subsection \<open>validateTaskStructure and importData\<close>

definition requiredFields :: "jsstring list" where
  "requiredFields = [js ''id'', js ''title'', js ''dueDate'', js ''duration'', js ''tag'']"

text \<open>
  The loop over the required fields: \<open>Inr False\<close> is its \<^verbatim>\<open>return false\<close>, \<open>Inr True\<close>
  its normal end.
\<close>

fun checkRequired :: "jsvalue \<Rightarrow> jsstring list \<Rightarrow> exn + bool" where
  "checkRequired task [] = Inr True"
| "checkRequired task (field # rest) =
     (case hasOwnProperty task field of
        Inl e \<Rightarrow> Inl e
      | Inr own \<Rightarrow>
          if \<not> own \<or> getProp task field = Some JNull \<or> isUndefined (getProp task field)
          then Inr False
          else checkRequired task rest)"

text \<open>\<^verbatim>\<open>v < 0\<close> for a property read \<open>v\<close> that is a number.\<close>

fun negative :: "jsvalue option \<Rightarrow> bool" where
  "negative (Some (JNum x)) = (x < 0)"
| "negative (Some JNegInfinity) = True"
| "negative v = False"

definition validateTaskStructure :: "jsvalue \<Rightarrow> exn + bool" where
  "validateTaskStructure task =
     (if \<not> truthy (Some task) \<or> typeof (Some task) \<noteq> TObject then Inr False
      else
        (case checkRequired task requiredFields of
           Inl e \<Rightarrow> Inl e
         | Inr False \<Rightarrow> Inr False
         | Inr True \<Rightarrow>
             if typeof (getProp task (js ''id'')) \<noteq> TString \<or>
                typeof (getProp task (js ''title'')) \<noteq> TString \<or>
                typeof (getProp task (js ''dueDate'')) \<noteq> TString \<or>
                typeof (getProp task (js ''tag'')) \<noteq> TString \<or>
                (typeof (getProp task (js ''duration'')) \<noteq> TNumber \<or>
                 negative (getProp task (js ''duration'')))
             then Inr False
             else if \<not> isUndefined (getProp task (js ''description'')) \<and>
                typeof (getProp task (js ''description'')) \<noteq> TString
             then Inr False
             else if \<not> isUndefined (getProp task (js ''createdAt'')) \<and>
                typeof (getProp task (js ''createdAt'')) \<noteq> TString
             then Inr False
             else if \<not> isUndefined (getProp task (js ''updatedAt'')) \<and>
                typeof (getProp task (js ''updatedAt'')) \<noteq> TString
             then Inr False
             else Inr True))"

record import_result =
  success :: bool
  tasks :: "jsvalue list"
  settings :: jsvalue
  errors :: "jsstring list"

text \<open>
  The statement on \<^verbatim>\<open>data.tasks\<close>: it yields the accepted tasks and the entries pushed to
  \<^verbatim>\<open>result.errors\<close>, or the exception raised inside the \<^verbatim>\<open>filter\<close> callback.
\<close>

definition importTasks :: "jsvalue option \<Rightarrow> exn + jsvalue list \<times> jsstring list" where
  "importTasks dataTasks =
     (case dataTasks of
        Some (JArr xs) \<Rightarrow>
          (case filterE validateTaskStructure xs of
             Inl e \<Rightarrow> Inl e
           | Inr accepted \<Rightarrow>
               (let invalidTasks = length xs - length accepted in
                Inr (accepted,
                  if invalidTasks > 0
                  then [decimal invalidTasks @ js '' tasks were skipped due to invalid structure'']
                  else [])))
      | other \<Rightarrow>
          if truthy other then Inr ([], [js ''Tasks data is not in the expected format''])
          else Inr ([], []))"

definition importSettings :: "jsvalue option \<Rightarrow> jsvalue" where
  "importSettings dataSettings =
     (if truthy dataSettings \<and> typeof dataSettings = TObject then the dataSettings else JNull)"

definition importData_try :: "jstext \<Rightarrow> exn + import_result" where
  "importData_try jsonString =
     (case JSON_parse jsonString of
        Inl e \<Rightarrow> Inl e
      | Inr data \<Rightarrow>
          if \<not> truthy (Some data) \<or> typeof (Some data) \<noteq> TObject
          then Inl (Error (js ''Invalid data format''))
          else
            (case importTasks (getProp data (js ''tasks'')) of
               Inl e \<Rightarrow> Inl e
             | Inr (accepted, errs) \<Rightarrow>
                 Inr \<lparr>success = True, tasks = accepted,
                      settings = importSettings (getProp data (js ''settings'')),
                      errors = errs\<rparr>))"

definition importData :: "jstext \<Rightarrow> import_result" where
  "importData jsonString =
     (case importData_try jsonString of
        Inr result \<Rightarrow> result
      | Inl error \<Rightarrow>
          \<lparr>success = False, tasks = [], settings = JNull, errors = [message error]\<rparr>)"

section \<open>Notions used in the statements\<close>

text \<open>The key of the backup copy in sessionStorage.\<close>

definition BACKUP_KEY :: jsstring where
  "BACKUP_KEY = STORAGE_KEY @ js ''_backup''"

text \<open>
  A storage entry from which \<open>loadTasks\<close> takes no tasks without raising: nothing is
  stored, or the empty string, or the text of a value other than a non-empty array.
\<close>

fun noTasks :: "jstext option \<Rightarrow> bool" where
  "noTasks None = True"
| "noTasks (Some EmptyText) = True"
| "noTasks (Some (Malformed m)) = False"
| "noTasks (Some (Stringified (JArr ts))) = (ts = [])"
| "noTasks (Some (Stringified v)) = True"

text \<open>What the \<^verbatim>\<open>catch\<close> block of \<open>loadTasks\<close> does: the seed data, or the empty array.\<close>

definition seedOrEmpty :: "jsvalue list computation \<Rightarrow> jsvalue list computation" where
  "seedOrEmpty loadSeedData b =
     (case loadSeedData b of
        (Inr seed, b') \<Rightarrow> (Inr seed, b')
      | (Inl seedError, b') \<Rightarrow> (Inr [], b'))"

text \<open>A string of exactly \<open>w\<close> decimal digits.\<close>

definition digitField :: "nat \<Rightarrow> jsstring \<Rightarrow> bool" where
  "digitField w s = (length s = w \<and> list_all isDigit s)"

text \<open>
  A domain label: 1 to 63 letters, digits and hyphens, the first and the last of them
  a letter or a digit.
\<close>

definition labelShape :: "jsstring \<Rightarrow> bool" where
  "labelShape w =
     (w \<noteq> [] \<and> length w \<le> 63 \<and> list_all isLabelChar w \<and> isAlnum (hd w) \<and> isAlnum (last w))"

text \<open>\<^verbatim>\<open>labels.join('.')\<close>\<close>

definition joinDots :: "jsstring list \<Rightarrow> jsstring" where
  "joinDots labels = (case labels of [] \<Rightarrow> [] | l # ls \<Rightarrow> l @ concat (map ((#) 46) ls))"

text \<open>
  The values that \<^verbatim>\<open>JSON.stringify\<close> writes as they are: those that hold no \<^verbatim>\<open>undefined\<close>,
  \<^verbatim>\<open>NaN\<close>, \<^verbatim>\<open>Infinity\<close> or \<^verbatim>\<open>-Infinity\<close>.
\<close>

fun jsonClean :: "jsvalue \<Rightarrow> bool" where
  "jsonClean JUndefined = False"
| "jsonClean JNaN = False"
| "jsonClean JPosInfinity = False"
| "jsonClean JNegInfinity = False"
| "jsonClean (JArr xs) = list_all jsonClean xs"
| "jsonClean (JObj kvs) = list_all (\<lambda>(k, v). jsonClean v) kvs"
| "jsonClean v = True"

subsection \<open>Sample data\<close>

text \<open>
  A task as the add form produces it, a Date, storage areas that accept every write
  and none, and sample behaviours for the two helpers that are parameters: seed data
  that loads or fails to load, and a backup that copies the tasks to sessionStorage.
\<close>

definition sampleTask :: jsvalue where
  "sampleTask = JObj
     [(js ''id'', JStr (js ''task_1'')),
      (js ''title'', JStr (js ''Read chapter 4'')),
      (js ''dueDate'', JStr (js ''2025-10-20'')),
      (js ''duration'', JNum 2.5),
      (js ''tag'', JStr (js ''Reading''))]"

definition sampleDate :: date where
  "sampleDate = \<lparr>utcFullYear = 2026, utcMonth = 11, utcDate = 2, utcHours = 4,
     utcMinutes = 5, utcSeconds = 6, utcMilliseconds = 7\<rparr>"

definition emptyArea :: webstorage where
  "emptyArea = \<lparr>entries = Map.empty, blocked = False, accepts = (\<lambda>k v. True)\<rparr>"

definition fullArea :: webstorage where
  "fullArea = \<lparr>entries = Map.empty, blocked = False, accepts = (\<lambda>k v. False)\<rparr>"

definition seedReturns :: "jsvalue list \<Rightarrow> jsvalue list computation" where
  "seedReturns ts b = (Inr ts, b)"

definition seedRaises :: "jsvalue list computation" where
  "seedRaises b = (Inl (Error (js ''seed data unavailable'')), b)"

definition backupToSession :: "jsvalue list \<Rightarrow> unit computation" where
  "backupToSession ts b =
     (case setItem (sessionStorage b) (STORAGE_KEY @ js ''_backup'')
             (JSON_stringify (JArr ts)) of
        Inl e \<Rightarrow> (Inl e, b)
      | Inr s \<Rightarrow> (Inr (), b\<lparr>sessionStorage := s\<rparr>))"

text \<open>
  A task whose duration is \<^verbatim>\<open>Infinity\<close>, as \<^verbatim>\<open>JSON.parse\<close> reads it from the numeral
  \<^verbatim>\<open>1e999\<close> of an imported file.
\<close>

definition endlessTask :: jsvalue where
  "endlessTask = JObj
     [(js ''id'', JStr (js ''task_2'')),
      (js ''title'', JStr (js ''Thesis'')),
      (js ''dueDate'', JStr (js ''2025-12-01'')),
      (js ''duration'', JPosInfinity),
      (js ''tag'', JStr (js ''Project''))]"

section \<open>Properties of the storage module\<close>

subsection \<open>Auxiliary facts\<close>

lemma setProp_lookup:
  "map_of (setProp k v obj) k' = (if k' = k then Some v else map_of obj k')"
  by (induction obj) auto

lemma spread_lookup:
  "distinct (map fst p) \<Longrightarrow>
   map_of (foldl (\<lambda>acc (k, x). setProp k x acc) obj p) k' =
     (case map_of p k' of Some v \<Rightarrow> Some v | None \<Rightarrow> map_of obj k')"
proof (induction p arbitrary: obj)
  case Nil
  then show ?case by simp
next
  case (Cons kv p)
  obtain k v where kv: "kv = (k, v)" by (cases kv)
  from Cons.prems kv have k: "map_of p k = None" and d: "distinct (map fst p)"
    by (auto simp: map_of_eq_None_iff)
  show ?case
    using Cons.IH [OF d, of "setProp k v obj"] kv k
    by (auto simp: setProp_lookup split: option.splits)
qed

lemma spread_defaults: "spread [] (JObj defaultSettings) = defaultSettings"
  by (simp add: spread_def defaultSettings_def js_def)

lemma loadSettings_catch_defaults:
  "loadSettings_try b = Inl e \<Longrightarrow> loadSettings b = Inr (JObj defaultSettings)"
  by (simp add: loadSettings_def defaultSettings_def)

lemma filterE_total:
  "list_all (\<lambda>x. p x = Inr True \<or> p x = Inr False) xs \<Longrightarrow>
   filterE p xs = Inr (filter (\<lambda>x. p x = Inr True) xs)"
  by (induction xs) auto

lemma length_filter_complement:
  "list_all (\<lambda>x. p x = Inr True \<or> p x = Inr False) xs \<Longrightarrow>
   length xs - length (filter (\<lambda>x. p x = Inr True) xs) =
     length (filter (\<lambda>x. p x = Inr False) xs)"
proof (induction xs)
  case Nil
  then show ?case by simp
next
  case (Cons x xs)
  have le: "length (filter (\<lambda>x. p x = Inr True) xs) \<le> length xs" by simp
  from Cons show ?case using le by (auto simp: Suc_diff_le)
qed

lemma sampleTask_valid: "validateTaskStructure sampleTask = Inr True"
  by (simp add: validateTaskStructure_def sampleTask_def requiredFields_def
      hasOwnProperty_def js_def)

lemma null_invalid: "validateTaskStructure JNull = Inr False"
  by (simp add: validateTaskStructure_def)

lemma asWritten_clean: "jsonClean v \<Longrightarrow> asWritten v = v"
proof (induction v rule: asWritten.induct)
  case (9 xs)
  then show ?case by (auto simp: list_all_iff intro: map_idI)
next
  case (10 kvs)
  then have "filter (\<lambda>(k, v). v \<noteq> JUndefined) kvs = kvs"
    by (auto simp: list_all_iff filter_id_conv)
  moreover have "asWritten v = v" if "(k, v) \<in> set kvs" for k v
  proof -
    from that "10.prems" have c: "jsonClean v" by (auto simp: list_all_iff)
    then have "v \<noteq> JUndefined" by auto
    with that c show ?thesis by (intro "10.IH") auto
  qed
  then have "map (\<lambda>(k, v). (k, asWritten v)) kvs = kvs"
    by (intro map_idI) auto
  ultimately show ?case by simp
qed simp_all

lemma asWritten_clean_list: "list_all jsonClean ts \<Longrightarrow> map asWritten ts = ts"
  by (auto simp: list_all_iff asWritten_clean intro: map_idI)

lemma sampleTask_clean: "asWritten sampleTask = sampleTask"
  by (simp add: sampleTask_def)

lemma defaultSettings_clean: "asWritten (JObj defaultSettings) = JObj defaultSettings"
  by (simp add: defaultSettings_def)

lemma endlessTask_valid: "validateTaskStructure endlessTask = Inr True"
  by (simp add: validateTaskStructure_def endlessTask_def requiredFields_def
      hasOwnProperty_def js_def)

lemma decimal_digits: "list_all isDigit (decimal n)"
proof (induction n rule: decimal.induct)
  case (1 n)
  show ?case
  proof (cases "n < 10")
    case True
    then show ?thesis by (simp add: decimal.simps [of n] isDigit_def)
  next
    case False
    have "n mod 10 < 10" by simp
    then have "isDigit (48 + n mod 10)" unfolding isDigit_def by linarith
    with False "1.IH" show ?thesis by (simp add: decimal.simps [of n])
  qed
qed

lemma decimal_length: "0 < w \<Longrightarrow> n < 10 ^ w \<Longrightarrow> length (decimal n) \<le> w"
proof (induction n arbitrary: w rule: decimal.induct)
  case (1 n)
  show ?case
  proof (cases "n < 10")
    case True
    with "1.prems" show ?thesis by (simp add: decimal.simps [of n])
  next
    case False
    from "1.prems" obtain v where w: "w = Suc v" by (cases w) auto
    with False "1.prems" have v: "0 < v" by (cases v) auto
    from "1.prems" w have "n div 10 < 10 ^ v" by (simp add: less_mult_imp_div_less mult.commute)
    from "1.IH" [OF False v this] w False show ?thesis by (simp add: decimal.simps [of n])
  qed
qed

lemma digitsValue_snoc: "digitsValue (s @ [d]) = 10 * digitsValue s + (d - 48)"
  by (simp add: digitsValue_def)

lemma digitsValue_decimal: "digitsValue (decimal n) = n"
proof (induction n rule: decimal.induct)
  case (1 n)
  show ?case
  proof (cases "n < 10")
    case True
    then show ?thesis by (simp add: decimal.simps [of n] digitsValue_def)
  next
    case False
    with "1.IH" show ?thesis
      by (simp add: decimal.simps [of n] digitsValue_snoc)
  qed
qed

lemma digitsValue_zeros: "digitsValue (replicate k 48 @ s) = digitsValue s"
proof -
  have "foldl (\<lambda>a d. 10 * a + (d - 48)) 0 (replicate k 48) = (0::nat)"
    by (induction k) simp_all
  then show ?thesis by (simp add: digitsValue_def)
qed

lemma padStart_decimal:
  "0 < w \<Longrightarrow> n < 10 ^ w \<Longrightarrow>
   digitField w (padStart w (decimal n)) \<and> digitsValue (padStart w (decimal n)) = n"
  using decimal_length [of w n] decimal_digits [of n]
  by (auto simp: digitField_def padStart_def isDigit_def list_all_iff digitsValue_zeros
      digitsValue_decimal)

lemma digitField2: "digitField 2 s \<Longrightarrow> \<exists>a b. s = [a, b] \<and> isDigit a \<and> isDigit b"
  by (cases s; cases "tl s"; cases "tl (tl s)") (auto simp: digitField_def)

lemma digitField3: "digitField 3 s \<Longrightarrow> \<exists>a b c. s = [a, b, c] \<and> isDigit a \<and> isDigit b \<and> isDigit c"
  by (cases s; cases "tl s"; cases "tl (tl s)"; cases "tl (tl (tl s))") (auto simp: digitField_def)

lemma digitField4:
  "digitField 4 s \<Longrightarrow> \<exists>a b c d. s = [a, b, c, d] \<and> isDigit a \<and> isDigit b \<and> isDigit c \<and> isDigit d"
  by (cases s; cases "tl s"; cases "tl (tl s)"; cases "tl (tl (tl s))"; cases "tl (tl (tl (tl s)))")
    (auto simp: digitField_def)

lemma digitField6:
  "digitField 6 s \<Longrightarrow> \<exists>a b c d e f. s = [a, b, c, d, e, f] \<and> isDigit a \<and> isDigit b \<and>
     isDigit c \<and> isDigit d \<and> isDigit e \<and> isDigit f"
  by (cases s; cases "tl s"; cases "tl (tl s)"; cases "tl (tl (tl s))"; cases "tl (tl (tl (tl s)))";
      cases "tl (tl (tl (tl (tl s))))"; cases "tl (tl (tl (tl (tl (tl s)))))")
    (auto simp: digitField_def)

text \<open>A string of fields of the right widths reads back as the numbers of its fields.\<close>

lemma iso8601_date_fields:
  assumes y: "(year \<le> 9999 \<and> digitField 4 ys \<and> y = ys) \<or>
      (9999 < year \<and> digitField 6 ys \<and> y = js ''+'' @ ys)"
    and f: "digitField 2 mo" "digitField 2 d" "digitField 2 h" "digitField 2 mi"
      "digitField 2 se" "digitField 3 ms"
    and v: "valid_date \<lparr>utcFullYear = digitsValue ys, utcMonth = digitsValue mo,
      utcDate = digitsValue d, utcHours = digitsValue h, utcMinutes = digitsValue mi,
      utcSeconds = digitsValue se, utcMilliseconds = digitsValue ms\<rparr>"
  shows "iso8601_date (y @ js ''-'' @ mo @ js ''-'' @ d @ js ''T'' @ h @ js '':'' @ mi
      @ js '':'' @ se @ js ''.'' @ ms @ js ''Z'') =
    Some \<lparr>utcFullYear = digitsValue ys, utcMonth = digitsValue mo,
      utcDate = digitsValue d, utcHours = digitsValue h, utcMinutes = digitsValue mi,
      utcSeconds = digitsValue se, utcMilliseconds = digitsValue ms\<rparr>"
proof -
  from f(1) obtain m1 m2 where mo: "mo = [m1, m2]" "isDigit m1" "isDigit m2"
    using digitField2 by blast
  from f(2) obtain d1 d2 where d: "d = [d1, d2]" "isDigit d1" "isDigit d2"
    using digitField2 by blast
  from f(3) obtain h1 h2 where h: "h = [h1, h2]" "isDigit h1" "isDigit h2"
    using digitField2 by blast
  from f(4) obtain i1 i2 where mi: "mi = [i1, i2]" "isDigit i1" "isDigit i2"
    using digitField2 by blast
  from f(5) obtain s1 s2 where se: "se = [s1, s2]" "isDigit s1" "isDigit s2"
    using digitField2 by blast
  from f(6) obtain l1 l2 l3 where ms: "ms = [l1, l2, l3]" "isDigit l1" "isDigit l2" "isDigit l3"
    using digitField3 by blast
  have yr: "(list_all2 maskChar ''dddd'' y \<or> list_all2 maskChar ''+dddddd'' y) \<and>
      filter isDigit y = ys"
  proof -
    from y consider (four) "digitField 4 ys" "y = ys" | (six) "digitField 6 ys" "y = js ''+'' @ ys"
      by blast
    then show ?thesis
    proof cases
      case four
      from digitField4 [OF four(1)] four(2) show ?thesis by (auto simp: maskChar_def)
    next
      case six
      from digitField6 [OF six(1)] six(2) show ?thesis
        by (auto simp: maskChar_def js_def isDigit_def)
    qed
  qed
  have len: "length (y @ js ''-'' @ mo @ js ''-'' @ d @ js ''T'' @ h @ js '':'' @ mi
      @ js '':'' @ se @ js ''.'' @ ms @ js ''Z'') - 20 = length y"
    by (simp add: mo d h mi se ms js_def)
  show ?thesis
    unfolding iso8601_date_def len Let_def
    using yr v mo d h mi se ms
    by (simp add: js_def maskChar_def)
qed

lemma toISOString_reads_back: "valid_date d \<Longrightarrow> iso8601_date (toISOString d) = Some d"
proof -
  assume v: "valid_date d"
  obtain yy mm dd hh mi ss ms where d: "d = \<lparr>utcFullYear = yy, utcMonth = mm, utcDate = dd,
      utcHours = hh, utcMinutes = mi, utcSeconds = ss, utcMilliseconds = ms\<rparr>"
    by (cases d) auto
  have dim: "daysInMonth yy mm \<le> 31" by (simp add: daysInMonth_def)
  from v d dim have b: "yy < 10 ^ 6" "mm < 10 ^ 2" "dd < 10 ^ 2" "hh < 10 ^ 2" "mi < 10 ^ 2"
    "ss < 10 ^ 2" "ms < 10 ^ 3"
    by (simp_all add: valid_date_def)
  let ?ys = "if yy \<le> 9999 then padStart 4 (decimal yy) else padStart 6 (decimal yy)"
  have y: "(yy \<le> 9999 \<and> digitField 4 ?ys \<and>
        (if yy \<le> 9999 then padStart 4 (decimal yy) else js ''+'' @ padStart 6 (decimal yy)) = ?ys) \<or>
      (9999 < yy \<and> digitField 6 ?ys \<and>
        (if yy \<le> 9999 then padStart 4 (decimal yy) else js ''+'' @ padStart 6 (decimal yy)) =
          js ''+'' @ ?ys)"
    using b(1) padStart_decimal [of 4 yy] padStart_decimal [of 6 yy] by auto
  have yv: "digitsValue ?ys = yy"
    using b(1) padStart_decimal [of 4 yy] padStart_decimal [of 6 yy] by auto
  note f = padStart_decimal [of 2 mm] padStart_decimal [of 2 dd] padStart_decimal [of 2 hh]
    padStart_decimal [of 2 mi] padStart_decimal [of 2 ss] padStart_decimal [of 3 ms]
  have "iso8601_date
     ((if yy \<le> 9999 then padStart 4 (decimal yy) else js ''+'' @ padStart 6 (decimal yy))
      @ js ''-'' @ padStart 2 (decimal mm) @ js ''-'' @ padStart 2 (decimal dd)
      @ js ''T'' @ padStart 2 (decimal hh) @ js '':'' @ padStart 2 (decimal mi)
      @ js '':'' @ padStart 2 (decimal ss) @ js ''.'' @ padStart 3 (decimal ms) @ js ''Z'') =
    Some \<lparr>utcFullYear = digitsValue ?ys, utcMonth = digitsValue (padStart 2 (decimal mm)),
      utcDate = digitsValue (padStart 2 (decimal dd)),
      utcHours = digitsValue (padStart 2 (decimal hh)),
      utcMinutes = digitsValue (padStart 2 (decimal mi)),
      utcSeconds = digitsValue (padStart 2 (decimal ss)),
      utcMilliseconds = digitsValue (padStart 3 (decimal ms))\<rparr>"
  proof (rule iso8601_date_fields [OF y])
    show "digitField 2 (padStart 2 (decimal mm))" "digitField 2 (padStart 2 (decimal dd))"
      "digitField 2 (padStart 2 (decimal hh))" "digitField 2 (padStart 2 (decimal mi))"
      "digitField 2 (padStart 2 (decimal ss))" "digitField 3 (padStart 3 (decimal ms))"
      using f b by simp_all
    show "valid_date \<lparr>utcFullYear = digitsValue ?ys,
      utcMonth = digitsValue (padStart 2 (decimal mm)),
      utcDate = digitsValue (padStart 2 (decimal dd)),
      utcHours = digitsValue (padStart 2 (decimal hh)),
      utcMinutes = digitsValue (padStart 2 (decimal mi)),
      utcSeconds = digitsValue (padStart 2 (decimal ss)),
      utcMilliseconds = digitsValue (padStart 3 (decimal ms))\<rparr>"
      using f b v d by (simp add: yv)
  qed
  then show ?thesis
    using f b yv by (cases "yy \<le> 9999") (simp_all add: toISOString_def d)
qed

lemma sampleDate_stamp: "generateTimestamp sampleDate = js ''2026-11-02T04:05:06.007Z''"
  by (simp add: generateTimestamp_def toISOString_def sampleDate_def padStart_def
      decimal.simps js_def numeral_2_eq_2)

lemma loadTasks_catch: "loadTasks_try seed b = (Inl e, b') \<Longrightarrow> loadTasks seed b = seedOrEmpty seed b'"
  by (simp add: loadTasks_def seedOrEmpty_def)

lemma loadTasks_return: "loadTasks_try seed b = (Inr ts, b') \<Longrightarrow> loadTasks seed b = (Inr ts, b')"
  by (simp add: loadTasks_def)

lemma seedOrEmpty_returns: "\<exists>v. fst (seedOrEmpty seed b) = Inr v"
  by (simp add: seedOrEmpty_def split: prod.splits sum.splits)

lemma loadTasks_never_raises: "\<exists>v. fst (loadTasks seed b) = Inr v"
proof (cases "loadTasks_try seed b")
  case (Pair r b')
  then show ?thesis
    using seedOrEmpty_returns [of seed b']
    by (cases r) (simp_all add: loadTasks_catch loadTasks_return)
qed

lemma primary_tasks:
  "\<not> blocked (localStorage b) \<Longrightarrow> entries (localStorage b) STORAGE_KEY = Some (Stringified (JArr ts)) \<Longrightarrow>
   ts \<noteq> [] \<Longrightarrow> loadTasks_primary b = Inr (Some ts)"
  by (simp add: loadTasks_primary_def getItem_def)

lemma primary_noTasks:
  "\<not> blocked (localStorage b) \<Longrightarrow> noTasks (entries (localStorage b) STORAGE_KEY) \<Longrightarrow>
   loadTasks_primary b = Inr None"
  by (cases "entries (localStorage b) STORAGE_KEY" rule: noTasks.cases)
     (simp_all add: loadTasks_primary_def getItem_def)

lemma primary_raises:
  "blocked (localStorage b) \<or> entries (localStorage b) STORAGE_KEY = Some (Malformed m) \<Longrightarrow>
   \<exists>e. loadTasks_primary b = Inl e"
  by (auto simp: loadTasks_primary_def getItem_def)

lemma backup_tasks:
  "\<not> blocked (sessionStorage b) \<Longrightarrow>
   entries (sessionStorage b) BACKUP_KEY = Some (Stringified (JArr ts)) \<Longrightarrow> ts \<noteq> [] \<Longrightarrow>
   setItem (localStorage b) STORAGE_KEY (Stringified (JArr ts)) = Inr l \<Longrightarrow>
   loadTasks_backup b = (Inr (Some ts), b\<lparr>localStorage := l\<rparr>)"
  by (simp add: loadTasks_backup_def getItem_def BACKUP_KEY_def)

lemma backup_noTasks:
  "\<not> blocked (sessionStorage b) \<Longrightarrow> noTasks (entries (sessionStorage b) BACKUP_KEY) \<Longrightarrow>
   loadTasks_backup b = (Inr None, b)"
  by (cases "entries (sessionStorage b) BACKUP_KEY" rule: noTasks.cases)
     (simp_all add: loadTasks_backup_def getItem_def BACKUP_KEY_def)

lemma backup_raises:
  "blocked (sessionStorage b) \<or> entries (sessionStorage b) BACKUP_KEY = Some (Malformed m) \<or>
   (entries (sessionStorage b) BACKUP_KEY = Some (Stringified (JArr ts)) \<and> ts \<noteq> [] \<and>
    setItem (localStorage b) STORAGE_KEY (Stringified (JArr ts)) = Inl e') \<Longrightarrow>
   \<exists>e. loadTasks_backup b = (Inl e, b)"
  by (auto simp: loadTasks_backup_def getItem_def BACKUP_KEY_def)

lemma setItem_stored:
  "setItem area k v = Inr area' \<Longrightarrow> \<not> blocked area' \<and> entries area' k = Some v"
  by (auto simp: setItem_def split: if_splits)

lemma saveTasks_try_primary_fails:
  "setItem (localStorage b) STORAGE_KEY (JSON_stringify (JArr ts)) = Inl e \<Longrightarrow>
   saveTasks_try cab ts b = (Inl e, b)"
  by (simp add: saveTasks_try_def)

lemma saveTasks_never_raises: "\<exists>r. fst (saveTasks cab ts b) = Inr r"
  by (auto simp: saveTasks_def split: prod.splits sum.splits)

lemmas storage_eval = saveTasks_def saveTasks_try_def loadTasks_def loadTasks_try_def
  loadTasks_primary_def loadTasks_backup_def setItem_def getItem_def JSON_stringify_def
  emptyArea_def fullArea_def backupToSession_def seedRaises_def seedReturns_def BACKUP_KEY_def
  STORAGE_KEY_def js_def

lemma saveTasks_empty:
  "setItem (localStorage b) STORAGE_KEY (JSON_stringify (JArr [])) = Inr l \<Longrightarrow>
   saveTasks cab [] b = (Inr True, b\<lparr>localStorage := l\<rparr>)"
  by (simp add: saveTasks_def saveTasks_try_def)

lemma saveTasks_keeps_entry:
  assumes "ts \<noteq> []"
    and "setItem (localStorage b) STORAGE_KEY (JSON_stringify (JArr ts)) = Inr l"
  shows "localStorage (snd (saveTasks cab ts b)) =
    localStorage (snd (cab ts (b\<lparr>localStorage := l\<rparr>)))"
  using assms
  by (cases "cab ts (b\<lparr>localStorage := l\<rparr>)")
     (auto simp: saveTasks_def saveTasks_try_def split: sum.splits)

subsection \<open>importData\<close>

text \<open>
  C3, as the code has it. Take a batch that parses to an object whose \<^verbatim>\<open>tasks\<close> property
  is an array, and on every element of which \<open>validateTaskStructure\<close> returns (\<open>true\<close>
  for N of them, \<open>false\<close> for M of them). Then \<open>importData\<close> succeeds, accepts exactly the
  N valid tasks in their order, and \<^verbatim>\<open>errors\<close> holds the one entry "M tasks were skipped
  due to invalid structure" when M is positive and no entry when M is 0.
\<close>

theorem importData_partial:
  assumes batch: "getProp data (js ''tasks'') = Some (JArr xs)"
    and obj: "truthy (Some data)" "typeof (Some data) = TObject"
    and returns: "list_all (\<lambda>t. validateTaskStructure t = Inr True \<or>
        validateTaskStructure t = Inr False) xs"
    and M: "M = length (filter (\<lambda>t. validateTaskStructure t = Inr False) xs)"
  shows "success (importData (Stringified data)) \<and>
    tasks (importData (Stringified data)) =
      filter (\<lambda>t. validateTaskStructure t = Inr True) xs \<and>
    errors (importData (Stringified data)) =
      (if M > 0 then [decimal M @ js '' tasks were skipped due to invalid structure'']
       else [])"
  using assms filterE_total [OF returns] length_filter_complement [OF returns]
  by (simp add: importData_def importData_try_def importTasks_def Let_def)

theorem importData_partial_witness:
  "tasks (importData (Stringified (JObj [(js ''tasks'', JArr [JNull, sampleTask, JNull])]))) =
     [sampleTask] \<and>
   errors (importData (Stringified (JObj [(js ''tasks'', JArr [JNull, sampleTask, JNull])]))) =
     [js ''2 tasks were skipped due to invalid structure'']"
proof -
  let ?xs = "[JNull, sampleTask, JNull]"
  let ?data = "JObj [(js ''tasks'', JArr ?xs)]"
  have batch: "getProp ?data (js ''tasks'') = Some (JArr ?xs)" by simp
  have obj: "truthy (Some ?data)" "typeof (Some ?data) = TObject" by simp_all
  have returns: "list_all (\<lambda>t. validateTaskStructure t = Inr True \<or>
        validateTaskStructure t = Inr False) ?xs"
    by (simp add: sampleTask_valid null_invalid)
  have M: "2 = length (filter (\<lambda>t. validateTaskStructure t = Inr False) ?xs)"
    by (simp add: sampleTask_valid null_invalid)
  from importData_partial [OF batch obj returns M] show ?thesis
    by (simp add: sampleTask_valid null_invalid decimal.simps js_def)
qed

text \<open>
  The claim as stated fails on a batch with no invalid task (N = 1, M = 0): the result
  has no \<^verbatim>\<open>errors\<close> entry at all, so none reports the number of skipped tasks.
\<close>

theorem importData_no_skip_counterexample:
  "validateTaskStructure sampleTask = Inr True \<and>
   errors (importData (Stringified (JObj [(js ''tasks'', JArr [sampleTask])]))) = []"
  by (simp add: sampleTask_valid importData_def importData_try_def importTasks_def)

text \<open>
  C6, at the input \<^verbatim>\<open>{"tasks":[{"hasOwnProperty":1}]}\<close>: the top level parses to an object,
  and the one malformed task record makes \<open>importData\<close> reject the whole batch. The
  record's own \<^verbatim>\<open>hasOwnProperty\<close> shadows the method \<open>validateTaskStructure\<close> calls, the
  call raises a TypeError inside the \<^verbatim>\<open>filter\<close> callback, and the \<^verbatim>\<open>catch\<close> of
  \<open>importData\<close> turns it into a failed import.
\<close>

theorem importData_shadowed_hasOwnProperty:
  "importData (Stringified
     (JObj [(js ''tasks'', JArr [JObj [(js ''hasOwnProperty'', JNum 1)]])])) =
     \<lparr>success = False, tasks = [], settings = JNull,
      errors = [js ''task.hasOwnProperty is not a function'']\<rparr>"
  by (simp add: importData_def importData_try_def importTasks_def validateTaskStructure_def
      requiredFields_def hasOwnProperty_def)

subsection \<open>loadSettings\<close>

text \<open>
  C8. \<open>loadSettings\<close> never raises. When the settings key holds the text of an object
  (a JavaScript object has each key once), the result is the default settings merged
  with it: a persisted key has its persisted value, any other key its default value.
  When storage is blocked, nothing (or the empty string) is stored, or the stored text
  does not parse, the result is exactly the defaults.
\<close>

theorem loadSettings_merge:
  "(\<exists>s. loadSettings b = Inr s) \<and>
   (\<not> blocked (localStorage b) \<and>
    entries (localStorage b) SETTINGS_KEY = Some (Stringified (JObj persisted)) \<and>
    distinct (map fst persisted) \<longrightarrow>
      (\<exists>merged. loadSettings b = Inr (JObj merged) \<and>
         (\<forall>k. map_of merged k =
            (case map_of persisted k of
               Some v \<Rightarrow> Some v
             | None \<Rightarrow> map_of defaultSettings k)))) \<and>
   (blocked (localStorage b) \<or> \<not> present (entries (localStorage b) SETTINGS_KEY) \<or>
    (\<exists>m. entries (localStorage b) SETTINGS_KEY = Some (Malformed m)) \<longrightarrow>
      loadSettings b = Inr (JObj defaultSettings))"
proof (intro conjI impI)
  show "\<exists>s. loadSettings b = Inr s"
    by (simp add: loadSettings_def split: sum.splits)
next
  assume a: "\<not> blocked (localStorage b) \<and>
    entries (localStorage b) SETTINGS_KEY = Some (Stringified (JObj persisted)) \<and>
    distinct (map fst persisted)"
  then have "loadSettings b = Inr (JObj (spread defaultSettings (JObj persisted)))"
    by (simp add: loadSettings_def loadSettings_try_def getItem_def spread_defaults)
  moreover have "\<forall>k. map_of (spread defaultSettings (JObj persisted)) k =
      (case map_of persisted k of Some v \<Rightarrow> Some v | None \<Rightarrow> map_of defaultSettings k)"
    using a by (simp add: spread_def spread_lookup)
  ultimately show "\<exists>merged. loadSettings b = Inr (JObj merged) \<and>
         (\<forall>k. map_of merged k =
            (case map_of persisted k of
               Some v \<Rightarrow> Some v
             | None \<Rightarrow> map_of defaultSettings k))"
    by blast
next
  assume a: "blocked (localStorage b) \<or> \<not> present (entries (localStorage b) SETTINGS_KEY) \<or>
    (\<exists>m. entries (localStorage b) SETTINGS_KEY = Some (Malformed m))"
  show "loadSettings b = Inr (JObj defaultSettings)"
  proof (cases "loadSettings_try b")
    case (Inl e)
    then show ?thesis by (rule loadSettings_catch_defaults)
  next
    case (Inr s)
    with a have "s = JObj defaultSettings"
      by (auto simp: loadSettings_try_def getItem_def split: if_splits sum.splits)
    with Inr show ?thesis by (simp add: loadSettings_def)
  qed
qed

theorem loadSettings_merge_witness:
  "\<exists>merged.
     loadSettings \<lparr>localStorage = emptyArea\<lparr>entries := [SETTINGS_KEY \<mapsto>
        Stringified (JObj [(js ''durationCap'', JNum 20),
          (js ''reminderEmail'', JStr (js ''a@b.co''))])]\<rparr>,
        sessionStorage = emptyArea\<rparr> = Inr (JObj merged) \<and>
     map_of merged (js ''durationCap'') = Some (JNum 20) \<and>
     map_of merged (js ''timeUnit'') = Some (JStr (js ''hours'')) \<and>
     map_of merged (js ''reminderEmail'') = Some (JStr (js ''a@b.co'')) \<and>
     loadSettings \<lparr>localStorage = emptyArea, sessionStorage = emptyArea\<rparr> =
       Inr (JObj defaultSettings)"
proof -
  let ?p = "[(js ''durationCap'', JNum 20), (js ''reminderEmail'', JStr (js ''a@b.co''))]"
  let ?b = "\<lparr>localStorage = emptyArea\<lparr>entries := [SETTINGS_KEY \<mapsto> Stringified (JObj ?p)]\<rparr>,
        sessionStorage = emptyArea\<rparr>"
  let ?e = "\<lparr>localStorage = emptyArea, sessionStorage = emptyArea\<rparr>"
  have h: "\<not> blocked (localStorage ?b) \<and>
    entries (localStorage ?b) SETTINGS_KEY = Some (Stringified (JObj ?p)) \<and>
    distinct (map fst ?p)"
    by (simp add: emptyArea_def js_def)
  have n: "\<not> present (entries (localStorage ?e) SETTINGS_KEY)"
    by (simp add: emptyArea_def)
  from loadSettings_merge [of ?b ?p] h obtain merged where
    m: "loadSettings ?b = Inr (JObj merged)"
      "\<forall>k. map_of merged k =
         (case map_of ?p k of Some v \<Rightarrow> Some v | None \<Rightarrow> map_of defaultSettings k)"
    by blast
  have "map_of merged (js ''durationCap'') = Some (JNum 20)"
    "map_of merged (js ''timeUnit'') = Some (JStr (js ''hours''))"
    "map_of merged (js ''reminderEmail'') = Some (JStr (js ''a@b.co''))"
    using m(2) by (simp_all add: defaultSettings_def js_def)
  moreover have "loadSettings ?e = Inr (JObj defaultSettings)"
    using loadSettings_merge [of ?e] n by blast
  ultimately show ?thesis using m(1) by blast
qed

subsection \<open>exportData\<close>

text \<open>
  C7, as the code has it. For every task array, settings object and Date of the call,
  the text \<open>exportData\<close> returns parses to an object with exactly the four fields
  \<^verbatim>\<open>version\<close>, \<^verbatim>\<open>exportedAt\<close>, \<^verbatim>\<open>tasks\<close> and \<^verbatim>\<open>settings\<close>, in this order. The version is
  "1.0"; \<^verbatim>\<open>exportedAt\<close> is an ISO-8601 timestamp that denotes the Date of the call; the
  tasks and the settings are the arguments as \<^verbatim>\<open>JSON.stringify\<close> writes them, which are
  the arguments themselves when these hold no \<^verbatim>\<open>undefined\<close>, \<^verbatim>\<open>NaN\<close>, \<^verbatim>\<open>Infinity\<close> or
  \<^verbatim>\<open>-Infinity\<close>.
\<close>

theorem exportData_envelope:
  "valid_date now \<Longrightarrow>
   (\<exists>stamp.
      JSON_parse (exportData ts (JObj st) now) =
        Inr (JObj
          [(js ''version'', JStr (js ''1.0'')),
           (js ''exportedAt'', JStr stamp),
           (js ''tasks'', JArr (map asWritten ts)),
           (js ''settings'', asWritten (JObj st))]) \<and>
      is_iso8601 stamp \<and> iso8601_date stamp = Some now) \<and>
   (list_all jsonClean ts \<longrightarrow> map asWritten ts = ts) \<and>
   (jsonClean (JObj st) \<longrightarrow> asWritten (JObj st) = JObj st)"
proof (intro conjI impI)
  assume v: "valid_date now"
  have "JSON_parse (exportData ts (JObj st) now) =
        Inr (JObj
          [(js ''version'', JStr (js ''1.0'')),
           (js ''exportedAt'', JStr (generateTimestamp now)),
           (js ''tasks'', JArr (map asWritten ts)),
           (js ''settings'', asWritten (JObj st))])"
    by (simp add: exportData_def JSON_stringify_def)
  moreover have "iso8601_date (generateTimestamp now) = Some now"
    using v by (simp add: generateTimestamp_def toISOString_reads_back)
  ultimately show "\<exists>stamp.
      JSON_parse (exportData ts (JObj st) now) =
        Inr (JObj
          [(js ''version'', JStr (js ''1.0'')),
           (js ''exportedAt'', JStr stamp),
           (js ''tasks'', JArr (map asWritten ts)),
           (js ''settings'', asWritten (JObj st))]) \<and>
      is_iso8601 stamp \<and> iso8601_date stamp = Some now"
    by (simp add: is_iso8601_def)
next
  assume "list_all jsonClean ts"
  then show "map asWritten ts = ts" by (rule asWritten_clean_list)
next
  assume "jsonClean (JObj st)"
  then show "asWritten (JObj st) = JObj st" by (rule asWritten_clean)
qed

theorem exportData_envelope_witness:
  "JSON_parse (exportData [sampleTask] (JObj defaultSettings) sampleDate) =
     Inr (JObj
       [(js ''version'', JStr (js ''1.0'')),
        (js ''exportedAt'', JStr (js ''2026-11-02T04:05:06.007Z'')),
        (js ''tasks'', JArr [sampleTask]),
        (js ''settings'', JObj defaultSettings)]) \<and>
   iso8601_date (js ''2026-11-02T04:05:06.007Z'') = Some sampleDate"
proof -
  have v: "valid_date sampleDate"
    by (simp add: valid_date_def sampleDate_def daysInMonth_def)
  have c: "list_all jsonClean [sampleTask]" "jsonClean (JObj defaultSettings)"
    by (simp_all add: sampleTask_def defaultSettings_def)
  from exportData_envelope [OF v, of "[sampleTask]" defaultSettings] c
  obtain stamp where s: "JSON_parse (exportData [sampleTask] (JObj defaultSettings) sampleDate) =
     Inr (JObj
       [(js ''version'', JStr (js ''1.0'')),
        (js ''exportedAt'', JStr stamp),
        (js ''tasks'', JArr [sampleTask]),
        (js ''settings'', JObj defaultSettings)])" "iso8601_date stamp = Some sampleDate"
    by auto
  from s(1) have "stamp = js ''2026-11-02T04:05:06.007Z''"
    by (simp add: exportData_def JSON_stringify_def sampleDate_stamp)
  with s show ?thesis by simp
qed

text \<open>
  The claim as stated fails for a task whose duration is \<^verbatim>\<open>Infinity\<close>, which \<open>importData\<close>
  accepts from a file with the numeral \<^verbatim>\<open>1e999\<close>: the exported task has the duration
  \<^verbatim>\<open>null\<close>, so the \<^verbatim>\<open>tasks\<close> field is not the given array.
\<close>

theorem exportData_infinity_counterexample:
  "tasks (importData (Stringified (JObj [(js ''tasks'', JArr [endlessTask])]))) = [endlessTask] \<and>
   JSON_parse (exportData [endlessTask] (JObj defaultSettings) sampleDate) =
     Inr (JObj
       [(js ''version'', JStr (js ''1.0'')),
        (js ''exportedAt'', JStr (js ''2026-11-02T04:05:06.007Z'')),
        (js ''tasks'', JArr [JObj
           [(js ''id'', JStr (js ''task_2'')),
            (js ''title'', JStr (js ''Thesis'')),
            (js ''dueDate'', JStr (js ''2025-12-01'')),
            (js ''duration'', JNull),
            (js ''tag'', JStr (js ''Project''))]]),
        (js ''settings'', JObj defaultSettings)]) \<and>
   endlessTask \<noteq> JObj
           [(js ''id'', JStr (js ''task_2'')),
            (js ''title'', JStr (js ''Thesis'')),
            (js ''dueDate'', JStr (js ''2025-12-01'')),
            (js ''duration'', JNull),
            (js ''tag'', JStr (js ''Project''))]"
proof -
  have "tasks (importData (Stringified (JObj [(js ''tasks'', JArr [endlessTask])]))) = [endlessTask]"
    by (simp add: importData_def importData_try_def importTasks_def endlessTask_valid)
  moreover have "JSON_parse (exportData [endlessTask] (JObj defaultSettings) sampleDate) =
     Inr (JObj
       [(js ''version'', JStr (js ''1.0'')),
        (js ''exportedAt'', JStr (js ''2026-11-02T04:05:06.007Z'')),
        (js ''tasks'', JArr [JObj
           [(js ''id'', JStr (js ''task_2'')),
            (js ''title'', JStr (js ''Thesis'')),
            (js ''dueDate'', JStr (js ''2025-12-01'')),
            (js ''duration'', JNull),
            (js ''tag'', JStr (js ''Project''))]]),
        (js ''settings'', JObj defaultSettings)])"
    by (simp add: exportData_def JSON_stringify_def sampleDate_stamp endlessTask_def
        defaultSettings_def)
  moreover have "endlessTask \<noteq> JObj
           [(js ''id'', JStr (js ''task_2'')),
            (js ''title'', JStr (js ''Thesis'')),
            (js ''dueDate'', JStr (js ''2025-12-01'')),
            (js ''duration'', JNull),
            (js ''tag'', JStr (js ''Project''))]"
    by (simp add: endlessTask_def)
  ultimately show ?thesis by blast
qed

subsection \<open>saveTasks\<close>

text \<open>
  C5, as the code has it. \<open>saveTasks\<close> never raises. When the write to localStorage
  succeeds and, for a non-empty collection, the automatic backup that follows it returns
  normally, the result is \<open>true\<close>; when that backup raises, the result is \<open>false\<close>. When
  the write to localStorage fails the result is \<open>false\<close>, and the collection is then
  written to the backup key of sessionStorage if sessionStorage takes the write; if that
  write fails too, storage is left as it was.
\<close>

theorem saveTasks_flag:
  "(\<exists>r. fst (saveTasks createAutomaticBackup ts b) = Inr r) \<and>
   (setItem (localStorage b) STORAGE_KEY (JSON_stringify (JArr ts)) = Inr l \<and>
    (ts = [] \<or> fst (createAutomaticBackup ts (b\<lparr>localStorage := l\<rparr>)) = Inr ()) \<longrightarrow>
      fst (saveTasks createAutomaticBackup ts b) = Inr True) \<and>
   (setItem (localStorage b) STORAGE_KEY (JSON_stringify (JArr ts)) = Inr l \<and> ts \<noteq> [] \<and>
    fst (createAutomaticBackup ts (b\<lparr>localStorage := l\<rparr>)) = Inl e \<longrightarrow>
      fst (saveTasks createAutomaticBackup ts b) = Inr False) \<and>
   (setItem (localStorage b) STORAGE_KEY (JSON_stringify (JArr ts)) = Inl e \<longrightarrow>
      fst (saveTasks createAutomaticBackup ts b) = Inr False \<and>
      (setItem (sessionStorage b) BACKUP_KEY (JSON_stringify (JArr ts)) = Inr s \<longrightarrow>
         snd (saveTasks createAutomaticBackup ts b) = b\<lparr>sessionStorage := s\<rparr> \<and>
         entries s BACKUP_KEY = Some (JSON_stringify (JArr ts))) \<and>
      (setItem (sessionStorage b) BACKUP_KEY (JSON_stringify (JArr ts)) = Inl e' \<longrightarrow>
         snd (saveTasks createAutomaticBackup ts b) = b))"
proof (intro conjI impI)
  show "\<exists>r. fst (saveTasks createAutomaticBackup ts b) = Inr r"
    by (rule saveTasks_never_raises)
next
  assume a: "setItem (localStorage b) STORAGE_KEY (JSON_stringify (JArr ts)) = Inr l \<and>
    (ts = [] \<or> fst (createAutomaticBackup ts (b\<lparr>localStorage := l\<rparr>)) = Inr ())"
  then show "fst (saveTasks createAutomaticBackup ts b) = Inr True"
    by (cases "createAutomaticBackup ts (b\<lparr>localStorage := l\<rparr>)")
       (auto simp: saveTasks_def saveTasks_try_def)
next
  assume a: "setItem (localStorage b) STORAGE_KEY (JSON_stringify (JArr ts)) = Inr l \<and>
    ts \<noteq> [] \<and> fst (createAutomaticBackup ts (b\<lparr>localStorage := l\<rparr>)) = Inl e"
  then show "fst (saveTasks createAutomaticBackup ts b) = Inr False"
    by (cases "createAutomaticBackup ts (b\<lparr>localStorage := l\<rparr>)")
       (auto simp: saveTasks_def saveTasks_try_def split: sum.splits)
next
  assume a: "setItem (localStorage b) STORAGE_KEY (JSON_stringify (JArr ts)) = Inl e"
  show "fst (saveTasks createAutomaticBackup ts b) = Inr False"
    using saveTasks_try_primary_fails [OF a]
    by (simp add: saveTasks_def split: sum.splits)
  {
    assume s: "setItem (sessionStorage b) BACKUP_KEY (JSON_stringify (JArr ts)) = Inr s"
    show "snd (saveTasks createAutomaticBackup ts b) = b\<lparr>sessionStorage := s\<rparr>"
      using saveTasks_try_primary_fails [OF a] s
      by (simp add: saveTasks_def BACKUP_KEY_def)
    show "entries s BACKUP_KEY = Some (JSON_stringify (JArr ts))"
      using setItem_stored [OF s] by simp
  }
  {
    assume s: "setItem (sessionStorage b) BACKUP_KEY (JSON_stringify (JArr ts)) = Inl e'"
    show "snd (saveTasks createAutomaticBackup ts b) = b"
      using saveTasks_try_primary_fails [OF a] s
      by (simp add: saveTasks_def BACKUP_KEY_def)
  }
qed

theorem saveTasks_flag_witness:
  "fst (saveTasks backupToSession [sampleTask]
      \<lparr>localStorage = emptyArea, sessionStorage = emptyArea\<rparr>) = Inr True \<and>
   fst (saveTasks backupToSession [sampleTask]
      \<lparr>localStorage = fullArea, sessionStorage = emptyArea\<rparr>) = Inr False \<and>
   entries (sessionStorage (snd (saveTasks backupToSession [sampleTask]
      \<lparr>localStorage = fullArea, sessionStorage = emptyArea\<rparr>))) BACKUP_KEY =
     Some (Stringified (JArr [sampleTask]))"
proof -
  let ?ok = "\<lparr>localStorage = emptyArea, sessionStorage = emptyArea\<rparr>"
  let ?full = "\<lparr>localStorage = fullArea, sessionStorage = emptyArea\<rparr>"
  let ?text = "JSON_stringify (JArr [sampleTask])"
  let ?l = "emptyArea\<lparr>entries := (entries emptyArea)(STORAGE_KEY \<mapsto> ?text)\<rparr>"
  let ?s = "emptyArea\<lparr>entries := (entries emptyArea)(BACKUP_KEY \<mapsto> ?text)\<rparr>"
  have w: "setItem (localStorage ?ok) STORAGE_KEY ?text = Inr ?l"
    by (simp add: setItem_def emptyArea_def)
  have c: "fst (backupToSession [sampleTask] (?ok\<lparr>localStorage := ?l\<rparr>)) = Inr ()"
    by (simp add: backupToSession_def setItem_def emptyArea_def)
  have f: "setItem (localStorage ?full) STORAGE_KEY ?text =
      Inl (DOMException (js ''QuotaExceededError''))"
    by (simp add: setItem_def fullArea_def)
  have s: "setItem (sessionStorage ?full) BACKUP_KEY ?text = Inr ?s"
    by (simp add: setItem_def emptyArea_def)
  from saveTasks_flag [of backupToSession "[sampleTask]" ?ok ?l] w c
  have 1: "fst (saveTasks backupToSession [sampleTask] ?ok) = Inr True" by blast
  from saveTasks_flag [of backupToSession "[sampleTask]" ?full _ _ ?s] f s
  have 2: "fst (saveTasks backupToSession [sampleTask] ?full) = Inr False"
    and 3: "snd (saveTasks backupToSession [sampleTask] ?full) = ?full\<lparr>sessionStorage := ?s\<rparr>"
    by blast+
  from 1 2 3 show ?thesis by (simp add: JSON_stringify_def sampleTask_clean)
qed

text \<open>
  The claim as stated fails when neither area takes the write: the result is \<open>false\<close>
  and the collection is in no store.
\<close>

theorem saveTasks_both_rejected_counterexample:
  "saveTasks backupToSession [sampleTask] \<lparr>localStorage = fullArea, sessionStorage = fullArea\<rparr> =
     (Inr False, \<lparr>localStorage = fullArea, sessionStorage = fullArea\<rparr>) \<and>
   entries fullArea BACKUP_KEY = None"
  by (simp add: saveTasks_def saveTasks_try_def setItem_def fullArea_def)

subsection \<open>loadTasks\<close>

text \<open>
  C4, as the code has it. \<open>loadTasks\<close> never raises, and
  \<^item> returns the array stored in localStorage when that is the text of a non-empty array;
  \<^item> when localStorage yields no tasks (nothing stored, the empty string, or the text of
    anything but a non-empty array), returns the non-empty array of the sessionStorage
    backup, after copying its text to localStorage;
  \<^item> when neither store yields tasks, returns what \<^verbatim>\<open>loadSeedData\<close> returns, and when that
    raises, what a second call of it returns, or the empty array;
  \<^item> when a storage access raises or a stored text does not parse (in localStorage, or in
    sessionStorage once localStorage yielded no tasks), or the copy to localStorage is
    refused, goes straight to the seed data, or the empty array if that raises.
\<close>

theorem loadTasks_fallback:
  "(\<exists>v. fst (loadTasks loadSeedData b) = Inr v) \<and>
   (\<not> blocked (localStorage b) \<and>
    entries (localStorage b) STORAGE_KEY = Some (Stringified (JArr ts)) \<and> ts \<noteq> [] \<longrightarrow>
      loadTasks loadSeedData b = (Inr ts, b)) \<and>
   (\<not> blocked (localStorage b) \<and> noTasks (entries (localStorage b) STORAGE_KEY) \<and>
    \<not> blocked (sessionStorage b) \<and>
    entries (sessionStorage b) BACKUP_KEY = Some (Stringified (JArr ts)) \<and> ts \<noteq> [] \<and>
    setItem (localStorage b) STORAGE_KEY (Stringified (JArr ts)) = Inr l \<longrightarrow>
      loadTasks loadSeedData b = (Inr ts, b\<lparr>localStorage := l\<rparr>)) \<and>
   (\<not> blocked (localStorage b) \<and> noTasks (entries (localStorage b) STORAGE_KEY) \<and>
    \<not> blocked (sessionStorage b) \<and> noTasks (entries (sessionStorage b) BACKUP_KEY) \<longrightarrow>
      loadTasks loadSeedData b =
        (case loadSeedData b of
           (Inr seed, b') \<Rightarrow> (Inr seed, b')
         | (Inl e, b') \<Rightarrow> seedOrEmpty loadSeedData b')) \<and>
   (blocked (localStorage b) \<or> entries (localStorage b) STORAGE_KEY = Some (Malformed m) \<or>
    (noTasks (entries (localStorage b) STORAGE_KEY) \<and>
      (blocked (sessionStorage b) \<or> entries (sessionStorage b) BACKUP_KEY = Some (Malformed m) \<or>
       (entries (sessionStorage b) BACKUP_KEY = Some (Stringified (JArr ts)) \<and> ts \<noteq> [] \<and>
        setItem (localStorage b) STORAGE_KEY (Stringified (JArr ts)) = Inl e))) \<longrightarrow>
      loadTasks loadSeedData b = seedOrEmpty loadSeedData b)"
proof (intro conjI impI)
  show "\<exists>v. fst (loadTasks loadSeedData b) = Inr v" by (rule loadTasks_never_raises)
next
  assume "\<not> blocked (localStorage b) \<and>
    entries (localStorage b) STORAGE_KEY = Some (Stringified (JArr ts)) \<and> ts \<noteq> []"
  then have "loadTasks_try loadSeedData b = (Inr ts, b)"
    by (simp add: loadTasks_try_def primary_tasks)
  then show "loadTasks loadSeedData b = (Inr ts, b)" by (rule loadTasks_return)
next
  assume a: "\<not> blocked (localStorage b) \<and> noTasks (entries (localStorage b) STORAGE_KEY) \<and>
    \<not> blocked (sessionStorage b) \<and>
    entries (sessionStorage b) BACKUP_KEY = Some (Stringified (JArr ts)) \<and> ts \<noteq> [] \<and>
    setItem (localStorage b) STORAGE_KEY (Stringified (JArr ts)) = Inr l"
  then have "loadTasks_try loadSeedData b = (Inr ts, b\<lparr>localStorage := l\<rparr>)"
    by (simp add: loadTasks_try_def primary_noTasks backup_tasks)
  then show "loadTasks loadSeedData b = (Inr ts, b\<lparr>localStorage := l\<rparr>)" by (rule loadTasks_return)
next
  assume a: "\<not> blocked (localStorage b) \<and> noTasks (entries (localStorage b) STORAGE_KEY) \<and>
    \<not> blocked (sessionStorage b) \<and> noTasks (entries (sessionStorage b) BACKUP_KEY)"
  then have t: "loadTasks_try loadSeedData b = loadSeedData b"
    by (simp add: loadTasks_try_def primary_noTasks backup_noTasks)
  show "loadTasks loadSeedData b =
        (case loadSeedData b of
           (Inr seed, b') \<Rightarrow> (Inr seed, b')
         | (Inl e, b') \<Rightarrow> seedOrEmpty loadSeedData b')"
  proof (cases "loadSeedData b")
    case (Pair r b')
    with t show ?thesis
      by (cases r) (simp_all add: loadTasks_catch loadTasks_return)
  qed
next
  assume a: "blocked (localStorage b) \<or> entries (localStorage b) STORAGE_KEY = Some (Malformed m) \<or>
    (noTasks (entries (localStorage b) STORAGE_KEY) \<and>
      (blocked (sessionStorage b) \<or> entries (sessionStorage b) BACKUP_KEY = Some (Malformed m) \<or>
       (entries (sessionStorage b) BACKUP_KEY = Some (Stringified (JArr ts)) \<and> ts \<noteq> [] \<and>
        setItem (localStorage b) STORAGE_KEY (Stringified (JArr ts)) = Inl e)))"
  have "\<exists>e'. loadTasks_try loadSeedData b = (Inl e', b)"
  proof (cases "blocked (localStorage b) \<or> entries (localStorage b) STORAGE_KEY = Some (Malformed m)")
    case True
    from primary_raises [OF this] show ?thesis by (auto simp: loadTasks_try_def)
  next
    case False
    with a have p: "loadTasks_primary b = Inr None"
      and s: "blocked (sessionStorage b) \<or> entries (sessionStorage b) BACKUP_KEY = Some (Malformed m) \<or>
       (entries (sessionStorage b) BACKUP_KEY = Some (Stringified (JArr ts)) \<and> ts \<noteq> [] \<and>
        setItem (localStorage b) STORAGE_KEY (Stringified (JArr ts)) = Inl e)"
      by (auto simp: primary_noTasks)
    from backup_raises [OF s] p show ?thesis by (auto simp: loadTasks_try_def)
  qed
  then show "loadTasks loadSeedData b = seedOrEmpty loadSeedData b"
    by (auto simp: loadTasks_catch)
qed

theorem loadTasks_fallback_witness:
  "loadTasks seedRaises
      \<lparr>localStorage = emptyArea\<lparr>entries := [STORAGE_KEY \<mapsto> Stringified (JArr [sampleTask])]\<rparr>,
       sessionStorage = emptyArea\<rparr> =
     (Inr [sampleTask],
      \<lparr>localStorage = emptyArea\<lparr>entries := [STORAGE_KEY \<mapsto> Stringified (JArr [sampleTask])]\<rparr>,
       sessionStorage = emptyArea\<rparr>) \<and>
   fst (loadTasks seedRaises
      \<lparr>localStorage = emptyArea,
       sessionStorage = emptyArea\<lparr>entries := [BACKUP_KEY \<mapsto> Stringified (JArr [sampleTask])]\<rparr>\<rparr>) =
     Inr [sampleTask] \<and>
   fst (loadTasks (seedReturns [sampleTask])
      \<lparr>localStorage = emptyArea, sessionStorage = emptyArea\<rparr>) = Inr [sampleTask] \<and>
   fst (loadTasks seedRaises
      \<lparr>localStorage = emptyArea, sessionStorage = emptyArea\<rparr>) = Inr [] \<and>
   fst (loadTasks (seedReturns [sampleTask])
      \<lparr>localStorage = emptyArea\<lparr>blocked := True\<rparr>, sessionStorage = emptyArea\<rparr>) =
     Inr [sampleTask]"
proof -
  let ?text = "Stringified (JArr [sampleTask])"
  let ?b1 = "\<lparr>localStorage = emptyArea\<lparr>entries := [STORAGE_KEY \<mapsto> ?text]\<rparr>,
       sessionStorage = emptyArea\<rparr>"
  let ?b2 = "\<lparr>localStorage = emptyArea,
       sessionStorage = emptyArea\<lparr>entries := [BACKUP_KEY \<mapsto> ?text]\<rparr>\<rparr>"
  let ?b3 = "\<lparr>localStorage = emptyArea, sessionStorage = emptyArea\<rparr>"
  let ?b4 = "\<lparr>localStorage = emptyArea\<lparr>blocked := True\<rparr>, sessionStorage = emptyArea\<rparr>"
  let ?l = "emptyArea\<lparr>entries := (entries emptyArea)(STORAGE_KEY \<mapsto> ?text)\<rparr>"
  have h1: "\<not> blocked (localStorage ?b1) \<and>
      entries (localStorage ?b1) STORAGE_KEY = Some ?text \<and> [sampleTask] \<noteq> []"
    by (simp add: emptyArea_def)
  have h2: "\<not> blocked (localStorage ?b2) \<and> noTasks (entries (localStorage ?b2) STORAGE_KEY) \<and>
      \<not> blocked (sessionStorage ?b2) \<and> entries (sessionStorage ?b2) BACKUP_KEY = Some ?text \<and>
      [sampleTask] \<noteq> [] \<and> setItem (localStorage ?b2) STORAGE_KEY ?text = Inr ?l"
    by (simp add: emptyArea_def setItem_def)
  have h3: "\<not> blocked (localStorage ?b3) \<and> noTasks (entries (localStorage ?b3) STORAGE_KEY) \<and>
      \<not> blocked (sessionStorage ?b3) \<and> noTasks (entries (sessionStorage ?b3) BACKUP_KEY)"
    by (simp add: emptyArea_def)
  have h4: "blocked (localStorage ?b4)" by simp
  from loadTasks_fallback [of seedRaises ?b1 "[sampleTask]"] h1
  have 1: "loadTasks seedRaises ?b1 = (Inr [sampleTask], ?b1)" by blast
  from loadTasks_fallback [of seedRaises ?b2 "[sampleTask]" ?l] h2
  have 2: "fst (loadTasks seedRaises ?b2) = Inr [sampleTask]" by simp
  from loadTasks_fallback [of "seedReturns [sampleTask]" ?b3] h3
  have 3: "fst (loadTasks (seedReturns [sampleTask]) ?b3) = Inr [sampleTask]"
    by (simp add: seedReturns_def)
  from loadTasks_fallback [of seedRaises ?b3] h3
  have 4: "fst (loadTasks seedRaises ?b3) = Inr []"
    by (simp add: seedRaises_def seedOrEmpty_def)
  from loadTasks_fallback [of "seedReturns [sampleTask]" ?b4] h4
  have 5: "fst (loadTasks (seedReturns [sampleTask]) ?b4) = Inr [sampleTask]"
    by (simp add: seedReturns_def seedOrEmpty_def)
  from 1 2 3 4 5 show ?thesis by blast
qed

text \<open>
  The claim as stated fails on a parse failure in localStorage: the backup in
  sessionStorage is not consulted. Here it holds a task, the seed data fails to load,
  and the result is the empty array.
\<close>

theorem loadTasks_parse_failure_counterexample:
  "fst (loadTasks seedRaises
      \<lparr>localStorage = emptyArea\<lparr>entries := [STORAGE_KEY \<mapsto> Malformed (js ''Unexpected token'')]\<rparr>,
       sessionStorage = emptyArea\<lparr>entries := [BACKUP_KEY \<mapsto> Stringified (JArr [sampleTask])]\<rparr>\<rparr>) =
     Inr []"
  by (simp add: storage_eval)

subsection \<open>saveTasks followed by loadTasks\<close>

text \<open>
  C1, as the code has it. Let the write of \<open>saveTasks\<close> to localStorage succeed.
  \<^item> For a non-empty collection, when the automatic backup leaves the written entry in
    localStorage (and localStorage accessible), \<open>loadTasks\<close> called after \<open>saveTasks\<close>
    returns the collection as \<^verbatim>\<open>JSON.stringify\<close> wrote it; that is the collection itself
    when it holds no \<^verbatim>\<open>undefined\<close>, \<^verbatim>\<open>NaN\<close>, \<^verbatim>\<open>Infinity\<close> or \<^verbatim>\<open>-Infinity\<close>.
  \<^item> For the empty collection, the stored empty array counts as no data: \<open>loadTasks\<close>
    returns the non-empty array of the sessionStorage backup if there is one (copying
    it to localStorage); if the backup yields no tasks, what \<^verbatim>\<open>loadSeedData\<close> returns,
    or the empty array when that raises twice; and if reading the backup raises or the
    copy is refused, the seed data or the empty array.
\<close>

theorem save_load_roundtrip:
  "setItem (localStorage b) STORAGE_KEY (JSON_stringify (JArr ts)) = Inr l \<Longrightarrow>
   (ts \<noteq> [] \<and>
    \<not> blocked (localStorage (snd (createAutomaticBackup ts (b\<lparr>localStorage := l\<rparr>)))) \<and>
    entries (localStorage (snd (createAutomaticBackup ts (b\<lparr>localStorage := l\<rparr>))))
      STORAGE_KEY = Some (JSON_stringify (JArr ts)) \<longrightarrow>
      fst (loadTasks loadSeedData (snd (saveTasks createAutomaticBackup ts b))) =
        Inr (map asWritten ts) \<and>
      (list_all jsonClean ts \<longrightarrow>
        fst (loadTasks loadSeedData (snd (saveTasks createAutomaticBackup ts b))) = Inr ts)) \<and>
   (ts = [] \<and> \<not> blocked (sessionStorage b) \<and>
    entries (sessionStorage b) BACKUP_KEY = Some (Stringified (JArr bs)) \<and> bs \<noteq> [] \<and>
    setItem l STORAGE_KEY (Stringified (JArr bs)) = Inr l' \<longrightarrow>
      loadTasks loadSeedData (snd (saveTasks createAutomaticBackup ts b)) =
        (Inr bs, b\<lparr>localStorage := l'\<rparr>)) \<and>
   (ts = [] \<and> \<not> blocked (sessionStorage b) \<and>
    noTasks (entries (sessionStorage b) BACKUP_KEY) \<longrightarrow>
      loadTasks loadSeedData (snd (saveTasks createAutomaticBackup ts b)) =
        (case loadSeedData (b\<lparr>localStorage := l\<rparr>) of
           (Inr seed, b') \<Rightarrow> (Inr seed, b')
         | (Inl e, b') \<Rightarrow> seedOrEmpty loadSeedData b')) \<and>
   (ts = [] \<and>
    (blocked (sessionStorage b) \<or> entries (sessionStorage b) BACKUP_KEY = Some (Malformed m) \<or>
     (entries (sessionStorage b) BACKUP_KEY = Some (Stringified (JArr bs)) \<and> bs \<noteq> [] \<and>
      setItem l STORAGE_KEY (Stringified (JArr bs)) = Inl e)) \<longrightarrow>
      loadTasks loadSeedData (snd (saveTasks createAutomaticBackup ts b)) =
        seedOrEmpty loadSeedData (b\<lparr>localStorage := l\<rparr>))"
proof -
  assume written: "setItem (localStorage b) STORAGE_KEY (JSON_stringify (JArr ts)) = Inr l"
  let ?b' = "snd (saveTasks createAutomaticBackup ts b)"
  let ?b1 = "b\<lparr>localStorage := l\<rparr>"
  have empty: "?b' = ?b1 \<and> loadTasks_primary ?b1 = Inr None" if "ts = []"
  proof -
    from that written have "?b' = ?b1" by (simp add: saveTasks_empty)
    moreover from setItem_stored [OF written] that
    have "\<not> blocked (localStorage ?b1)" "noTasks (entries (localStorage ?b1) STORAGE_KEY)"
      by (simp_all add: JSON_stringify_def)
    then have "loadTasks_primary ?b1 = Inr None" by (rule primary_noTasks)
    ultimately show ?thesis by simp
  qed
  show ?thesis
  proof (intro conjI impI)
    assume a: "ts \<noteq> [] \<and>
      \<not> blocked (localStorage (snd (createAutomaticBackup ts ?b1))) \<and>
      entries (localStorage (snd (createAutomaticBackup ts ?b1))) STORAGE_KEY =
        Some (JSON_stringify (JArr ts))"
    with saveTasks_keeps_entry [OF _ written, of createAutomaticBackup]
    have "\<not> blocked (localStorage ?b')"
      "entries (localStorage ?b') STORAGE_KEY = Some (Stringified (JArr (map asWritten ts)))"
      by (simp_all add: JSON_stringify_def)
    moreover from a have "map asWritten ts \<noteq> []" by simp
    ultimately have "loadTasks_primary ?b' = Inr (Some (map asWritten ts))"
      by (rule primary_tasks)
    then have "loadTasks_try loadSeedData ?b' = (Inr (map asWritten ts), ?b')"
      by (simp add: loadTasks_try_def)
    then show r: "fst (loadTasks loadSeedData ?b') = Inr (map asWritten ts)"
      by (simp add: loadTasks_return)
    assume "list_all jsonClean ts"
    with r show "fst (loadTasks loadSeedData ?b') = Inr ts"
      by (simp add: asWritten_clean_list)
  next
    assume a: "ts = [] \<and> \<not> blocked (sessionStorage b) \<and>
      entries (sessionStorage b) BACKUP_KEY = Some (Stringified (JArr bs)) \<and> bs \<noteq> [] \<and>
      setItem l STORAGE_KEY (Stringified (JArr bs)) = Inr l'"
    then have "loadTasks_backup ?b1 = (Inr (Some bs), ?b1\<lparr>localStorage := l'\<rparr>)"
      by (intro backup_tasks) simp_all
    with a empty have "loadTasks_try loadSeedData ?b' = (Inr bs, b\<lparr>localStorage := l'\<rparr>)"
      by (simp add: loadTasks_try_def)
    then show "loadTasks loadSeedData ?b' = (Inr bs, b\<lparr>localStorage := l'\<rparr>)"
      by (rule loadTasks_return)
  next
    assume a: "ts = [] \<and> \<not> blocked (sessionStorage b) \<and>
      noTasks (entries (sessionStorage b) BACKUP_KEY)"
    then have "loadTasks_backup ?b1 = (Inr None, ?b1)"
      by (intro backup_noTasks) simp_all
    with a empty have t: "?b' = ?b1" "loadTasks_try loadSeedData ?b1 = loadSeedData ?b1"
      by (simp_all add: loadTasks_try_def)
    show "loadTasks loadSeedData ?b' =
        (case loadSeedData ?b1 of
           (Inr seed, b') \<Rightarrow> (Inr seed, b')
         | (Inl e, b') \<Rightarrow> seedOrEmpty loadSeedData b')"
    proof (cases "loadSeedData ?b1")
      case (Pair r b'')
      with t show ?thesis
        by (cases r) (simp_all add: loadTasks_catch loadTasks_return)
    qed
  next
    assume a: "ts = [] \<and>
      (blocked (sessionStorage b) \<or> entries (sessionStorage b) BACKUP_KEY = Some (Malformed m) \<or>
       (entries (sessionStorage b) BACKUP_KEY = Some (Stringified (JArr bs)) \<and> bs \<noteq> [] \<and>
        setItem l STORAGE_KEY (Stringified (JArr bs)) = Inl e))"
    then have "blocked (sessionStorage ?b1) \<or>
       entries (sessionStorage ?b1) BACKUP_KEY = Some (Malformed m) \<or>
       (entries (sessionStorage ?b1) BACKUP_KEY = Some (Stringified (JArr bs)) \<and> bs \<noteq> [] \<and>
        setItem (localStorage ?b1) STORAGE_KEY (Stringified (JArr bs)) = Inl e)"
      by simp
    from backup_raises [OF this] a empty
    have "\<exists>e'. loadTasks_try loadSeedData ?b' = (Inl e', ?b1)"
      by (auto simp: loadTasks_try_def)
    then show "loadTasks loadSeedData ?b' = seedOrEmpty loadSeedData ?b1"
      by (auto simp: loadTasks_catch)
  qed
qed

theorem save_load_roundtrip_witness:
  "fst (loadTasks seedRaises (snd (saveTasks backupToSession [sampleTask]
      \<lparr>localStorage = emptyArea, sessionStorage = emptyArea\<rparr>))) = Inr [sampleTask] \<and>
   fst (loadTasks seedRaises (snd (saveTasks backupToSession []
      \<lparr>localStorage = emptyArea, sessionStorage = emptyArea\<rparr>))) = Inr [] \<and>
   fst (loadTasks (seedReturns [sampleTask]) (snd (saveTasks backupToSession []
      \<lparr>localStorage = emptyArea, sessionStorage = emptyArea\<rparr>))) = Inr [sampleTask]"
proof -
  let ?ok = "\<lparr>localStorage = emptyArea, sessionStorage = emptyArea\<rparr>"
  let ?text = "JSON_stringify (JArr [sampleTask])"
  let ?l = "emptyArea\<lparr>entries := (entries emptyArea)(STORAGE_KEY \<mapsto> ?text)\<rparr>"
  let ?e = "emptyArea\<lparr>entries := (entries emptyArea)(STORAGE_KEY \<mapsto> JSON_stringify (JArr []))\<rparr>"
  have w: "setItem (localStorage ?ok) STORAGE_KEY ?text = Inr ?l"
    by (simp add: setItem_def emptyArea_def)
  have k: "[sampleTask] \<noteq> [] \<and>
      \<not> blocked (localStorage (snd (backupToSession [sampleTask] (?ok\<lparr>localStorage := ?l\<rparr>)))) \<and>
      entries (localStorage (snd (backupToSession [sampleTask] (?ok\<lparr>localStorage := ?l\<rparr>))))
        STORAGE_KEY = Some ?text"
    by (simp add: backupToSession_def setItem_def emptyArea_def)
  have c: "list_all jsonClean [sampleTask]" by (simp add: sampleTask_def)
  from save_load_roundtrip [OF w, of backupToSession seedRaises] k c
  have 1: "fst (loadTasks seedRaises (snd (saveTasks backupToSession [sampleTask] ?ok))) =
      Inr [sampleTask]" by blast
  have we: "setItem (localStorage ?ok) STORAGE_KEY (JSON_stringify (JArr [])) = Inr ?e"
    by (simp add: setItem_def emptyArea_def)
  have n: "[] = ([] :: jsvalue list) \<and> \<not> blocked (sessionStorage ?ok) \<and>
      noTasks (entries (sessionStorage ?ok) BACKUP_KEY)"
    by (simp add: emptyArea_def)
  from save_load_roundtrip [OF we, of backupToSession seedRaises] n
  have 2: "fst (loadTasks seedRaises (snd (saveTasks backupToSession [] ?ok))) = Inr []"
    by (simp add: seedRaises_def seedOrEmpty_def)
  from save_load_roundtrip [OF we, of backupToSession "seedReturns [sampleTask]"] n
  have 3: "fst (loadTasks (seedReturns [sampleTask]) (snd (saveTasks backupToSession [] ?ok))) =
      Inr [sampleTask]"
    by (simp add: seedReturns_def)
  from 1 2 3 show ?thesis by blast
qed

text \<open>
  The claim as stated fails for the empty collection when sessionStorage holds the
  backup of an earlier save: \<open>loadTasks\<close> returns that backup. It fails for a collection
  with a task of duration \<^verbatim>\<open>Infinity\<close> (accepted by \<open>importData\<close>): the task comes back
  with the duration \<^verbatim>\<open>null\<close>. And it fails when \<open>saveTasks\<close> could not write to
  localStorage: the copy of the backup to localStorage is refused as well, and \<open>loadTasks\<close>
  ends in its \<^verbatim>\<open>catch\<close> block.
\<close>

theorem save_load_counterexample:
  "fst (saveTasks backupToSession []
      \<lparr>localStorage = emptyArea,
       sessionStorage = emptyArea\<lparr>entries := [BACKUP_KEY \<mapsto> Stringified (JArr [sampleTask])]\<rparr>\<rparr>) =
     Inr True \<and>
   fst (loadTasks seedRaises (snd (saveTasks backupToSession []
      \<lparr>localStorage = emptyArea,
       sessionStorage = emptyArea\<lparr>entries := [BACKUP_KEY \<mapsto> Stringified (JArr [sampleTask])]\<rparr>\<rparr>))) =
     Inr [sampleTask] \<and>
   validateTaskStructure endlessTask = Inr True \<and>
   fst (saveTasks backupToSession [endlessTask]
      \<lparr>localStorage = emptyArea, sessionStorage = emptyArea\<rparr>) = Inr True \<and>
   fst (loadTasks seedRaises (snd (saveTasks backupToSession [endlessTask]
      \<lparr>localStorage = emptyArea, sessionStorage = emptyArea\<rparr>))) =
     Inr [JObj
           [(js ''id'', JStr (js ''task_2'')),
            (js ''title'', JStr (js ''Thesis'')),
            (js ''dueDate'', JStr (js ''2025-12-01'')),
            (js ''duration'', JNull),
            (js ''tag'', JStr (js ''Project''))]] \<and>
   endlessTask \<noteq> JObj
           [(js ''id'', JStr (js ''task_2'')),
            (js ''title'', JStr (js ''Thesis'')),
            (js ''dueDate'', JStr (js ''2025-12-01'')),
            (js ''duration'', JNull),
            (js ''tag'', JStr (js ''Project''))] \<and>
   fst (saveTasks backupToSession [sampleTask]
      \<lparr>localStorage = fullArea, sessionStorage = emptyArea\<rparr>) = Inr False \<and>
   fst (loadTasks seedRaises (snd (saveTasks backupToSession [sampleTask]
      \<lparr>localStorage = fullArea, sessionStorage = emptyArea\<rparr>))) = Inr []"
  using endlessTask_valid by (simp add: storage_eval endlessTask_def sampleTask_def)

section \<open>Properties of the email validation module\<close>

subsection \<open>Matching by derivatives decides membership\<close>

lemma nullable_lang: "nullable r \<longleftrightarrow> [] \<in> lang r"
  by (induction r) (auto intro: star.intros)

lemma star_cons:
  "c # w \<in> star A \<longleftrightarrow> (\<exists>u v. w = u @ v \<and> c # u \<in> A \<and> v \<in> star A)"
proof
  assume "c # w \<in> star A"
  then show "\<exists>u v. w = u @ v \<and> c # u \<in> A \<and> v \<in> star A"
  proof (induction "c # w" arbitrary: w rule: star.induct)
    case (star_step u v)
    show ?case
    proof (cases u)
      case Nil
      with star_step show ?thesis by simp
    next
      case (Cons d u')
      with star_step.hyps show ?thesis by auto
    qed
  qed
next
  assume "\<exists>u v. w = u @ v \<and> c # u \<in> A \<and> v \<in> star A"
  then obtain u v where "w = u @ v" "c # u \<in> A" "v \<in> star A" by blast
  then show "c # w \<in> star A"
    using star_step [of "c # u" A v] by simp
qed

lemma lang_seqI: "u \<in> lang r \<Longrightarrow> v \<in> lang s \<Longrightarrow> u @ v \<in> lang (RSeq r s)"
  by auto

lemma lang_class_seq:
  "w \<in> lang (RSeq (RClass p) s) \<longleftrightarrow> (\<exists>c w'. w = c # w' \<and> p c \<and> w' \<in> lang s)"
proof
  assume "w \<in> lang (RSeq (RClass p) s)"
  then obtain c v where "w = [c] @ v" "p c" "v \<in> lang s" by auto
  then show "\<exists>c w'. w = c # w' \<and> p c \<and> w' \<in> lang s" by simp
next
  assume "\<exists>c w'. w = c # w' \<and> p c \<and> w' \<in> lang s"
  then obtain c w' where w: "w = c # w'" "p c" "w' \<in> lang s" by blast
  then have "[c] \<in> lang (RClass p)" by simp
  from lang_seqI [OF this w(3)] w(1) show "w \<in> lang (RSeq (RClass p) s)" by simp
qed

lemma star_class_cons: "c # w \<in> star {[d] | d. p d} \<longleftrightarrow> p c \<and> w \<in> star {[d] | d. p d}"
  by (auto simp: star_cons)

lemma rderiv_lang: "w \<in> lang (rderiv c r) \<longleftrightarrow> c # w \<in> lang r"
proof (induction r arbitrary: w)
  case (RSeq r s)
  show ?case
  proof
    assume "w \<in> lang (rderiv c (RSeq r s))"
    then consider (left) u v where "w = u @ v" "u \<in> lang (rderiv c r)" "v \<in> lang s"
      | (right) "nullable r" "w \<in> lang (rderiv c s)"
      by (auto split: if_splits)
    then show "c # w \<in> lang (RSeq r s)"
    proof cases
      case left
      then have "c # u \<in> lang r" using RSeq.IH(1) by simp
      from lang_seqI [OF this left(3)] left(1) show ?thesis by simp
    next
      case right
      then have "[] \<in> lang r" "c # w \<in> lang s"
        using RSeq.IH(2) by (simp_all add: nullable_lang)
      from lang_seqI [OF this] show ?thesis by simp
    qed
  next
    assume "c # w \<in> lang (RSeq r s)"
    then obtain u v where uv: "c # w = u @ v" "u \<in> lang r" "v \<in> lang s" by auto
    show "w \<in> lang (rderiv c (RSeq r s))"
    proof (cases u)
      case Nil
      with uv have "nullable r" "w \<in> lang (rderiv c s)"
        using RSeq.IH(2) by (simp_all add: nullable_lang)
      then show ?thesis by simp
    next
      case (Cons d u')
      with uv have "w = u' @ v" "u' \<in> lang (rderiv c r)"
        using RSeq.IH(1) by simp_all
      with uv(3) show ?thesis by auto
    qed
  qed
next
  case (RStar r)
  show ?case
    using RStar.IH by (auto simp: star_cons)
qed auto

lemma test_lang: "test r s \<longleftrightarrow> s \<in> lang r"
  by (induction s arbitrary: r) (simp_all add: nullable_lang rderiv_lang)

lemma lang_optional: "lang (optional r) = insert [] (lang r)"
  by (auto simp: optional_def)

lemma star_class: "w \<in> star {[c] | c. p c} \<longleftrightarrow> list_all p w"
proof (induction w)
  case Nil
  show ?case by (simp add: star_empty)
next
  case (Cons c w)
  then show ?case by (simp add: star_class_cons)
qed

lemma lang_oneOrMore_class: "w \<in> lang (oneOrMore (RClass p)) \<longleftrightarrow> w \<noteq> [] \<and> list_all p w"
proof -
  have "w \<in> lang (oneOrMore (RClass p)) \<longleftrightarrow>
      (\<exists>c w'. w = c # w' \<and> p c \<and> w' \<in> star {[d] | d. p d})"
    unfolding oneOrMore_def lang_class_seq by simp
  then show ?thesis by (cases w) (auto simp: star_class)
qed

lemma test_oneOrMore_class: "test (oneOrMore (RClass p)) w \<longleftrightarrow> w \<noteq> [] \<and> list_all p w"
  by (simp add: test_lang lang_oneOrMore_class)

lemma lang_repeatUpTo_class:
  "w \<in> lang (repeatUpTo n (RClass p)) \<longleftrightarrow> length w \<le> n \<and> list_all p w"
proof (induction n arbitrary: w)
  case 0
  show ?case by auto
next
  case (Suc n)
  show ?case
  proof (cases w)
    case Nil
    then show ?thesis by (simp add: lang_optional)
  next
    case (Cons c w')
    have "w \<in> lang (repeatUpTo (Suc n) (RClass p)) \<longleftrightarrow>
        (\<exists>c w'. w = c # w' \<and> p c \<and> w' \<in> lang (repeatUpTo n (RClass p)))"
      using Cons by (simp add: lang_optional lang_class_seq del: lang.simps)
    then show ?thesis using Cons Suc.IH [of w'] by auto
  qed
qed

lemma lang_seq_iff:
  "w \<in> lang (RSeq r s) \<longleftrightarrow> (\<exists>u v. w = u @ v \<and> u \<in> lang r \<and> v \<in> lang s)"
  by auto

lemma lang_class_iff: "w \<in> lang (RClass p) \<longleftrightarrow> (\<exists>c. w = [c] \<and> p c)"
  by auto

lemma lang_star_eq: "lang (RStar r) = star (lang r)"
  by simp

declare lang.simps [simp del]

subsection \<open>The strings the email expression matches\<close>

lemma alnum_labelChar: "isAlnum c \<Longrightarrow> isLabelChar c"
  by (simp add: isLabelChar_def)

lemma lang_label_tail:
  "w \<in> lang (RSeq (repeatUpTo 61 (RClass isLabelChar)) (RClass isAlnum)) \<longleftrightarrow>
   (\<exists>m d. w = m @ [d] \<and> length m \<le> 61 \<and> list_all isLabelChar m \<and> isAlnum d)"
proof -
  have "w \<in> lang (RSeq (repeatUpTo 61 (RClass isLabelChar)) (RClass isAlnum)) \<longleftrightarrow>
    (\<exists>m v. w = m @ v \<and> m \<in> lang (repeatUpTo 61 (RClass isLabelChar)) \<and> v \<in> lang (RClass isAlnum))"
    by (rule lang_seq_iff)
  also have "\<dots> \<longleftrightarrow> (\<exists>m d. w = m @ [d] \<and> length m \<le> 61 \<and> list_all isLabelChar m \<and> isAlnum d)"
    unfolding lang_repeatUpTo_class lang_class_iff by blast
  finally show ?thesis .
qed

lemma lang_labelRegex: "w \<in> lang labelRegex \<longleftrightarrow> labelShape w"
proof
  assume "w \<in> lang labelRegex"
  then obtain c w' where w: "w = c # w'" "isAlnum c"
    and t: "w' = [] \<or> w' \<in> lang (RSeq (repeatUpTo 61 (RClass isLabelChar)) (RClass isAlnum))"
    unfolding labelRegex_def lang_class_seq lang_optional by auto
  from t show "labelShape w"
  proof
    assume "w' = []"
    with w show ?thesis by (simp add: labelShape_def alnum_labelChar)
  next
    assume "w' \<in> lang (RSeq (repeatUpTo 61 (RClass isLabelChar)) (RClass isAlnum))"
    then obtain m d where "w' = m @ [d]" "length m \<le> 61" "list_all isLabelChar m" "isAlnum d"
      unfolding lang_label_tail by blast
    with w show ?thesis by (simp add: labelShape_def alnum_labelChar)
  qed
next
  assume s: "labelShape w"
  then obtain c w' where w: "w = c # w'" by (cases w) (auto simp: labelShape_def)
  with s have c: "isAlnum c" by (simp add: labelShape_def)
  have "w' = [] \<or> w' \<in> lang (RSeq (repeatUpTo 61 (RClass isLabelChar)) (RClass isAlnum))"
  proof (cases "w' = []")
    case False
    then have "w' = butlast w' @ [last w']" by simp
    moreover from s w False have "length (butlast w') \<le> 61" "isAlnum (last w')"
      "list_all isLabelChar (butlast w')"
      by (auto simp: labelShape_def list_all_iff dest: in_set_butlastD)
    ultimately show ?thesis unfolding lang_label_tail by blast
  qed simp
  with w c show "w \<in> lang labelRegex"
    unfolding labelRegex_def lang_class_seq lang_optional by auto
qed

lemma lang_dot_label:
  "u \<in> lang (RSeq (RClass (isChar CHR ''.'')) labelRegex) \<longleftrightarrow> (\<exists>l. u = 46 # l \<and> labelShape l)"
  unfolding lang_class_seq lang_labelRegex by (auto simp: isChar_def)

lemma star_dot_labels:
  "w \<in> star (lang (RSeq (RClass (isChar CHR ''.'')) labelRegex)) \<longleftrightarrow>
   (\<exists>ls. list_all labelShape ls \<and> w = concat (map ((#) 46) ls))"
proof
  assume "w \<in> star (lang (RSeq (RClass (isChar CHR ''.'')) labelRegex))"
  then show "\<exists>ls. list_all labelShape ls \<and> w = concat (map ((#) 46) ls)"
  proof (induction rule: star.induct)
    case star_empty
    have "list_all labelShape [] \<and> [] = concat (map ((#) 46) [])" by simp
    then show ?case by blast
  next
    case (star_step u v)
    from star_step.hyps(1) obtain l where l: "u = 46 # l" "labelShape l"
      unfolding lang_dot_label by blast
    from star_step.IH obtain ls where ls: "list_all labelShape ls" "v = concat (map ((#) 46) ls)"
      by blast
    from l ls have "list_all labelShape (l # ls) \<and> u @ v = concat (map ((#) 46) (l # ls))"
      by simp
    then show ?case by blast
  qed
next
  assume "\<exists>ls. list_all labelShape ls \<and> w = concat (map ((#) 46) ls)"
  then obtain ls where "list_all labelShape ls" "w = concat (map ((#) 46) ls)" by blast
  then show "w \<in> star (lang (RSeq (RClass (isChar CHR ''.'')) labelRegex))"
  proof (induction ls arbitrary: w)
    case Nil
    then show ?case by (simp add: star_empty)
  next
    case (Cons l ls)
    then have "46 # l \<in> lang (RSeq (RClass (isChar CHR ''.'')) labelRegex)"
      unfolding lang_dot_label by simp
    moreover from Cons have "concat (map ((#) 46) ls) \<in> star (lang (RSeq (RClass (isChar CHR ''.'')) labelRegex))"
      by simp
    ultimately have "(46 # l) @ concat (map ((#) 46) ls) \<in> star (lang (RSeq (RClass (isChar CHR ''.'')) labelRegex))"
      by (rule star_step)
    with Cons.prems show ?case by simp
  qed
qed

lemma test_emailRegex:
  "test emailRegex s \<longleftrightarrow>
   (\<exists>lp l ls. s = lp @ 64 # l @ concat (map ((#) 46) ls) \<and> lp \<noteq> [] \<and>
      list_all isLocalChar lp \<and> labelShape l \<and> list_all labelShape ls)"
proof -
  let ?dots = "RStar (RSeq (RClass (isChar CHR ''.'')) labelRegex)"
  have at: "\<And>w. w \<in> lang (RSeq (RClass (isChar CHR ''@'')) (RSeq labelRegex ?dots)) \<longleftrightarrow>
      (\<exists>l ls. w = 64 # l @ concat (map ((#) 46) ls) \<and> labelShape l \<and> list_all labelShape ls)"
  proof -
    fix w
    have "w \<in> lang (RSeq (RClass (isChar CHR ''@'')) (RSeq labelRegex ?dots)) \<longleftrightarrow>
      (\<exists>w'. w = 64 # w' \<and> w' \<in> lang (RSeq labelRegex ?dots))"
      unfolding lang_class_seq by (auto simp: isChar_def)
    also have "\<dots> \<longleftrightarrow> (\<exists>l v. w = 64 # l @ v \<and> l \<in> lang labelRegex \<and> v \<in> lang ?dots)"
      unfolding lang_seq_iff by blast
    also have "\<dots> \<longleftrightarrow>
      (\<exists>l ls. w = 64 # l @ concat (map ((#) 46) ls) \<and> labelShape l \<and> list_all labelShape ls)"
      unfolding lang_labelRegex lang_star_eq star_dot_labels by blast
    finally show "w \<in> lang (RSeq (RClass (isChar CHR ''@'')) (RSeq labelRegex ?dots)) \<longleftrightarrow>
      (\<exists>l ls. w = 64 # l @ concat (map ((#) 46) ls) \<and> labelShape l \<and> list_all labelShape ls)" .
  qed
  have "test emailRegex s \<longleftrightarrow>
    (\<exists>lp w. s = lp @ w \<and> lp \<in> lang (oneOrMore (RClass isLocalChar)) \<and>
       w \<in> lang (RSeq (RClass (isChar CHR ''@'')) (RSeq labelRegex ?dots)))"
    unfolding test_lang emailRegex_def by (rule lang_seq_iff)
  also have "\<dots> \<longleftrightarrow> (\<exists>lp l ls. s = lp @ 64 # l @ concat (map ((#) 46) ls) \<and> lp \<noteq> [] \<and>
      list_all isLocalChar lp \<and> labelShape l \<and> list_all labelShape ls)"
    unfolding at lang_oneOrMore_class by blast
  finally show ?thesis .
qed

subsection \<open>String methods\<close>

lemma split_nonempty: "split sep s \<noteq> []"
  by (induction s) (auto split: list.splits)

lemma split_no_sep: "sep \<notin> set s \<Longrightarrow> split sep s = [s]"
  by (induction s) auto

lemma split_append: "sep \<notin> set a \<Longrightarrow> split sep (a @ sep # b) = a # split sep b"
  by (induction a) auto

lemma includes_char: "includes_str s [c] \<longleftrightarrow> c \<in> set s"
  by (induction s) (auto simp: startsWith_def)

lemma startsWith_char: "startsWith s [c] \<longleftrightarrow> s \<noteq> [] \<and> hd s = c"
  by (cases s) (auto simp: startsWith_def)

lemma endsWith_char: "endsWith s [c] \<longleftrightarrow> s \<noteq> [] \<and> last s = c"
proof (cases s rule: rev_cases)
  case Nil
  then show ?thesis by (simp add: endsWith_def)
next
  case (snoc t d)
  then show ?thesis by (auto simp: endsWith_def)
qed

lemma dropWhile_id: "s = [] \<or> \<not> P (hd s) \<Longrightarrow> dropWhile P s = s"
  by (cases s) auto

lemma trim_id:
  assumes "s \<noteq> []" "\<not> isWhiteSpace (hd s)" "\<not> isWhiteSpace (last s)"
  shows "trim s = s"
proof -
  from assms have "dropWhile isWhiteSpace s = s" by (simp add: dropWhile_id)
  moreover from assms have "dropWhile isWhiteSpace (rev s) = rev s"
    by (simp add: dropWhile_id hd_rev)
  ultimately show ?thesis by (simp add: trim_def)
qed

lemma trim_ends:
  assumes "trim s \<noteq> []"
  shows "\<not> isWhiteSpace (hd (trim s)) \<and> \<not> isWhiteSpace (last (trim s))"
proof -
  let ?t = "dropWhile isWhiteSpace s"
  let ?r = "dropWhile isWhiteSpace (rev ?t)"
  from assms have r: "?r \<noteq> []" by (simp add: trim_def)
  have t: "?t \<noteq> []"
  proof
    assume "?t = []"
    then have "?r = []" by (simp only: rev.simps dropWhile.simps)
    with r show False by contradiction
  qed
  have last: "last (trim s) = hd ?r" using r by (simp add: trim_def last_rev)
  have "\<not> isWhiteSpace (hd ?r)" using r by (rule hd_dropWhile)
  moreover have "hd (trim s) = hd ?t"
  proof -
    have "rev ?t = takeWhile isWhiteSpace (rev ?t) @ ?r" by simp
    then have "?t = rev ?r @ rev (takeWhile isWhiteSpace (rev ?t))"
      by (metis rev_append rev_rev_ident)
    then have "hd ?t = hd (rev ?r)" using r by (metis hd_append2 rev_is_Nil_conv)
    then show ?thesis by (simp add: trim_def)
  qed
  moreover have "\<not> isWhiteSpace (hd ?t)" using t by (rule hd_dropWhile)
  ultimately show ?thesis using last by simp
qed

lemma trim_Nil: "trim [] = []"
  by (simp add: trim_def)

lemma trim_idem: "trim (trim s) = trim s"
proof (cases "trim s = []")
  case True
  then show ?thesis using trim_Nil by simp
next
  case False
  with trim_ends [OF False] show ?thesis by (simp add: trim_id)
qed

lemma isValidEmail_trim: "trim e \<noteq> [] \<Longrightarrow> isValidEmail (trim e) = isValidEmail e"
proof -
  assume t: "trim e \<noteq> []"
  then have e: "e \<noteq> []" by (auto simp: trim_Nil)
  show ?thesis
    unfolding isValidEmail_def [of e] isValidEmail_def [of "trim e"] trim_idem
    using t e by (simp only: if_False)
qed

subsection \<open>Facts about isValidEmail\<close>

text \<open>What a match of the regular expression says about the at signs.\<close>

lemma not_at: "\<not> isLocalChar 64" "\<not> isLabelChar 64"
  by (simp_all add: isLocalChar_def isLabelChar_def isAlnum_def isAlpha_def isDigit_def js_def)

lemma not_dot: "\<not> isLabelChar 46"
  by (simp add: isLabelChar_def isAlnum_def isAlpha_def isDigit_def)

lemma labelShape_chars: "labelShape l \<Longrightarrow> list_all isLabelChar l"
  by (simp add: labelShape_def)

lemma dotted_labels_chars:
  "list_all labelShape ls \<Longrightarrow> list_all (\<lambda>c. c = 46 \<or> isLabelChar c) (concat (map ((#) 46) ls))"
  by (induction ls) (auto simp: list_all_iff dest: labelShape_chars)

lemma emailRegex_one_at:
  assumes "test emailRegex s"
  shows "\<exists>lp dm. s = lp @ 64 # dm \<and> lp \<noteq> [] \<and> 64 \<notin> set lp \<and> 64 \<notin> set dm"
proof -
  from assms obtain lp l ls where s: "s = lp @ 64 # l @ concat (map ((#) 46) ls)"
    and lp: "lp \<noteq> []" "list_all isLocalChar lp"
    and l: "labelShape l" and ls: "list_all labelShape ls"
    unfolding test_emailRegex by blast
  define dm where "dm = l @ concat (map ((#) 46) ls)"
  from lp have a: "64 \<notin> set lp" using not_at by (auto simp: list_all_iff)
  from l have "list_all (\<lambda>c. c = 46 \<or> isLabelChar c) l"
    by (auto simp: labelShape_def list_all_iff)
  with dotted_labels_chars [OF ls] have "list_all (\<lambda>c. c = 46 \<or> isLabelChar c) dm"
    by (simp add: dm_def)
  then have b: "64 \<notin> set dm" using not_at unfolding list_all_iff by fastforce
  from s have "s = lp @ 64 # dm" by (simp add: dm_def)
  with lp(1) a b show ?thesis by blast
qed

lemma one_at_facts:
  assumes "s = lp @ 64 # dm" "64 \<notin> set lp" "64 \<notin> set dm"
  shows "split 64 s = [lp, dm]" "includes_str s (js ''@'')"
    "length (filter (\<lambda>c. c = 64) s) = 1"
proof -
  show "split 64 s = [lp, dm]" using assms by (simp add: split_append split_no_sep)
  show "includes_str s (js ''@'')" using assms by (simp add: js_def includes_char)
  have "filter (\<lambda>c. c = 64) lp = []" "filter (\<lambda>c. c = 64) dm = []"
    using assms by (auto simp: filter_empty_conv)
  then show "length (filter (\<lambda>c. c = 64) s) = 1" using assms by simp
qed

lemma error_None_valid:
  assumes "getEmailValidationError e = None"
  shows "isValidEmail e"
proof -
  from assms have "trim e \<noteq> []" "isValidEmail (trim e)"
    by (auto simp: getEmailValidationError_def Let_def split: if_splits option.splits)
  then show ?thesis by (simp add: isValidEmail_trim)
qed

lemma valid_error_None:
  assumes v: "isValidEmail e"
  shows "getEmailValidationError e = None"
proof -
  let ?email = "trim e"
  from v have e: "e \<noteq> []" and t: "?email \<noteq> []" and re: "test emailRegex ?email"
    by (auto simp: isValidEmail_def Let_def split: if_splits)
  from t v have vt: "isValidEmail ?email" by (simp add: isValidEmail_trim)
  from emailRegex_one_at [OF re] obtain lp dm where
    s: "?email = lp @ 64 # dm" "64 \<notin> set lp" "64 \<notin> set dm" by blast
  note at = one_at_facts [OF s]
  from v e t re have rest:
    "length ?email \<le> 254"
    "hd (split 64 ?email) \<noteq> []" "length (hd (split 64 ?email)) \<le> 64"
    "list_ex isAlpha (hd (split 64 ?email))"
    "\<not> startsWith (hd (split 64 ?email)) (js ''.'')"
    "\<not> endsWith (hd (split 64 ?email)) (js ''.'')"
    "\<not> includes_str (hd (split 64 ?email)) (js ''..'')"
    by (auto simp: isValidEmail_def Let_def split: if_splits)
  from v e t re at(1) have dom:
    "dm \<noteq> []" "includes_str dm (js ''.'')"
    "\<not> startsWith dm (js ''.'')" "\<not> endsWith dm (js ''.'')"
    "\<not> startsWith dm (js ''-'')" "\<not> endsWith dm (js ''-'')"
    "2 \<le> length (last (split 46 dm))" "test (oneOrMore (RClass isAlpha)) (last (split 46 dm))"
    by (auto simp: isValidEmail_def Let_def element_def split: if_splits)
  show ?thesis
    unfolding getEmailValidationError_def Let_def
    using e t vt rest dom at by (simp add: element_def)
qed

lemmas class_defs = isLocalChar_def isLabelChar_def isAlnum_def isAlpha_def isDigit_def
  isChar_def isWhiteSpace_def

lemma digits_only_trim: "trim (js ''12@gmail.com'') = js ''12@gmail.com''"
  by (simp add: trim_def js_def isWhiteSpace_def)

lemma digits_only_invalid: "\<not> isValidEmail (js ''12@gmail.com'')"
proof -
  have "split 64 (js ''12@gmail.com'') = [js ''12'', js ''gmail.com'']"
    by (simp add: js_def)
  moreover have "\<not> list_ex isAlpha (js ''12'')" by (simp add: js_def isAlpha_def)
  ultimately show ?thesis
    unfolding isValidEmail_def digits_only_trim Let_def by simp
qed

lemma localChar_not_space: "isLocalChar c \<Longrightarrow> \<not> isWhiteSpace c"
  by (auto simp: class_defs js_def)

lemma alpha_not_space: "isAlpha c \<Longrightarrow> \<not> isWhiteSpace c"
  by (auto simp: class_defs)

lemma alnum_not_dot_hyphen: "isAlnum c \<Longrightarrow> c \<noteq> 46 \<and> c \<noteq> 45"
  by (auto simp: class_defs)

lemma alpha_labelShape:
  "2 \<le> length tld \<Longrightarrow> length tld \<le> 63 \<Longrightarrow> list_all isAlpha tld \<Longrightarrow> labelShape tld"
proof -
  assume a: "2 \<le> length tld" "length tld \<le> 63" "list_all isAlpha tld"
  then have "tld \<noteq> []" by auto
  then have "hd tld \<in> set tld" "last tld \<in> set tld" by simp_all
  with a show ?thesis
    by (auto simp: labelShape_def isLabelChar_def isAlnum_def list_all_iff)
qed

lemma split_dotted:
  "list_all (\<lambda>l. 46 \<notin> set l) ls \<Longrightarrow> 46 \<notin> set l \<Longrightarrow>
   split 46 (l @ concat (map ((#) 46) ls)) = l # ls"
proof (induction ls arbitrary: l)
  case Nil
  then show ?case by (simp add: split_no_sep)
next
  case (Cons k ls)
  then have "split 46 (k @ concat (map ((#) 46) ls)) = k # ls" by simp
  with Cons.prems show ?case by (simp add: split_append)
qed

lemma labelShape_no_dot: "labelShape l \<Longrightarrow> 46 \<notin> set l"
  using not_dot by (auto simp: labelShape_def list_all_iff)

lemma checkLabels_shapes: "list_all labelShape ls \<Longrightarrow> checkLabels ls"
proof (induction ls)
  case Nil
  show ?case by simp
next
  case (Cons l ls)
  then have s: "labelShape l" and r: "checkLabels ls" by simp_all
  from s have "l \<noteq> []" "length l \<le> 63" "hd l \<noteq> 45" "last l \<noteq> 45" "list_all isLabelChar l"
    using alnum_not_dot_hyphen by (auto simp: labelShape_def)
  with r show ?case
    by (simp add: js_def startsWith_char endsWith_char test_oneOrMore_class)
qed

lemma last_dotted:
  "list_all (\<lambda>l. l \<noteq> []) (l # ls) \<Longrightarrow>
   last (l @ concat (map ((#) 46) ls)) = last (last (l # ls))"
  by (induction ls arbitrary: l) auto

lemma isValidEmail_structure:
  assumes local: "local \<noteq> []" "length local \<le> 64" "list_all isLocalChar local"
      "list_ex isAlpha local"
      "\<not> startsWith local (js ''.'')" "\<not> endsWith local (js ''.'')"
      "\<not> includes_str local (js ''..'')"
    and labels: "labels \<noteq> []" "list_all labelShape labels"
    and tld: "2 \<le> length tld" "length tld \<le> 63" "list_all isAlpha tld"
    and total: "length (local @ js ''@'' @ joinDots (labels @ [tld])) \<le> 254"
  shows "isValidEmail (local @ js ''@'' @ joinDots (labels @ [tld]))"
proof -
  from labels obtain l ls' where labels_eq: "labels = l # ls'" by (cases labels) auto
  define ls where "ls = ls' @ [tld]"
  define dm where "dm = l @ concat (map ((#) 46) ls)"
  define email where "email = local @ 64 # dm"
  have email_eq: "local @ js ''@'' @ joinDots (labels @ [tld]) = email"
    by (simp add: email_def dm_def ls_def labels_eq joinDots_def js_def)
  have tldShape: "labelShape tld" using tld by (rule alpha_labelShape)
  have l: "labelShape l" and ls: "list_all labelShape ls" and ne: "ls \<noteq> []"
    using labels tldShape by (simp_all add: labels_eq ls_def)
  have shapes: "list_all labelShape (l # ls)" using l ls by simp
  have nodot: "46 \<notin> set l" "list_all (\<lambda>l. 46 \<notin> set l) ls"
    using l ls labelShape_no_dot by (auto simp: list_all_iff)
  have nonempty: "list_all (\<lambda>l. l \<noteq> []) (l # ls)"
    using shapes by (auto simp: list_all_iff labelShape_def)
  have "email \<noteq> []" by (simp add: email_def)
  moreover have "hd email = hd local" using local(1) by (simp add: email_def)
  moreover have "last email = last tld"
    using last_dotted [OF nonempty] by (simp add: email_def dm_def ls_def)
  moreover have "isLocalChar (hd local)" using local(1,3) by (cases local) auto
  moreover have "isAlpha (last tld)" using tld by (cases tld rule: rev_cases) auto
  ultimately have trim: "trim email = email"
    by (intro trim_id) (simp_all add: localChar_not_space alpha_not_space)
  have len: "length email \<le> 254" using total by (simp add: email_eq)
  have re: "test emailRegex email"
    unfolding test_emailRegex using local(1,3) l ls by (auto simp: email_def dm_def)
  have at: "64 \<notin> set local" "64 \<notin> set dm"
  proof -
    show "64 \<notin> set local" using local(3) not_at by (auto simp: list_all_iff)
    have "list_all (\<lambda>c. c = 46 \<or> isLabelChar c) dm"
      using dotted_labels_chars [OF ls] l by (auto simp: dm_def labelShape_def list_all_iff)
    then show "64 \<notin> set dm" using not_at unfolding list_all_iff by fastforce
  qed
  have sp: "split 64 email = [local, dm]"
    using one_at_facts(1) [OF email_def at] .
  have dm1: "dm \<noteq> []" "length dm \<le> 253"
    using l len by (auto simp: dm_def labelShape_def email_def)
  have dm2: "includes_str dm (js ''.'')"
    using ne by (cases ls) (auto simp: js_def includes_char dm_def)
  have "isAlnum (hd dm)" using l by (simp add: dm_def labelShape_def)
  moreover have "isAlnum (last dm)"
    using last_dotted [OF nonempty] tldShape
    by (simp add: dm_def ls_def labelShape_def)
  ultimately have dm3: "\<not> startsWith dm (js ''.'')" "\<not> endsWith dm (js ''.'')"
    "\<not> startsWith dm (js ''-'')" "\<not> endsWith dm (js ''-'')"
    using alnum_not_dot_hyphen by (auto simp: js_def startsWith_char endsWith_char)
  have labs: "split 46 dm = l # ls" unfolding dm_def using nodot(2,1) by (rule split_dotted)
  have chk: "checkLabels (l # ls)" using shapes by (rule checkLabels_shapes)
  have lastl: "last (l # ls) = tld" by (simp add: ls_def)
  have tldok: "\<not> length tld < 2" "test (oneOrMore (RClass isAlpha)) tld"
    using tld by (auto simp: test_oneOrMore_class)
  have "isValidEmail email"
    unfolding isValidEmail_def trim Let_def sp
    using \<open>email \<noteq> []\<close> len re local dm1 dm2 dm3 chk lastl tldok
    by (simp add: element_def labs)
  then show ?thesis by (simp add: email_eq)
qed

lemma double_dot_invalid: "\<not> isValidEmail (js ''a..b@x.com'')"
proof -
  have "trim (js ''a..b@x.com'') = js ''a..b@x.com''"
    by (simp add: trim_def js_def isWhiteSpace_def)
  moreover have "split 64 (js ''a..b@x.com'') = [js ''a..b'', js ''x.com'']"
    by (simp add: js_def)
  moreover have "includes_str (js ''a..b'') (js ''..'')"
    by (simp add: js_def startsWith_def)
  ultimately show ?thesis
    unfolding isValidEmail_def Let_def by simp
qed

lemma digits_only_error:
  "getEmailValidationError (js ''12@gmail.com'') =
     Some (js ''Username must contain at least one letter'')"
proof -
  have "split 64 (js ''12@gmail.com'') = [js ''12'', js ''gmail.com'']"
    by (simp add: js_def)
  moreover have "\<not> list_ex isAlpha (js ''12'')" by (simp add: js_def isAlpha_def)
  moreover have "includes_str (js ''12@gmail.com'') (js ''@'')"
    by (simp add: js_def includes_char)
  moreover have "length (filter (\<lambda>c. c = 64) (js ''12@gmail.com'')) = 1"
    by (simp add: js_def)
  ultimately show ?thesis
    unfolding getEmailValidationError_def digits_only_trim Let_def by (simp add: js_def)
qed

subsection \<open>isValidEmail\<close>

text \<open>
  C2, as the code has it. \<open>isValidEmail\<close> returns \<open>true\<close> for every string
  \<^verbatim>\<open>local@label. ... .label.tld\<close> of at most 254 characters in which
  \<^item> the local part has 1 to 64 characters, all of them letters, digits or one of
    \<^verbatim>\<open>.!#$%&'*+/=?^_`{|}~-\<close>, at least one of them a letter, with no dot at its start or
    end and no two dots in a row;
  \<^item> the domain has one or more labels before the last, each of 1 to 63 letters,
    digits and hyphens that starts and ends with a letter or a digit;
  \<^item> the last label has 2 to 63 characters, all of them letters.
  It returns \<open>false\<close> for \<^verbatim>\<open>12@gmail.com\<close> and for \<^verbatim>\<open>a..b@x.com\<close>.
\<close>

theorem isValidEmail_accepts:
  "(local \<noteq> [] \<and> length local \<le> 64 \<and> list_all isLocalChar local \<and>
    list_ex isAlpha local \<and>
    \<not> startsWith local (js ''.'') \<and> \<not> endsWith local (js ''.'') \<and>
    \<not> includes_str local (js ''..'') \<and>
    labels \<noteq> [] \<and> list_all labelShape labels \<and>
    2 \<le> length tld \<and> length tld \<le> 63 \<and> list_all isAlpha tld \<and>
    length (local @ js ''@'' @ joinDots (labels @ [tld])) \<le> 254 \<longrightarrow>
      isValidEmail (local @ js ''@'' @ joinDots (labels @ [tld]))) \<and>
   \<not> isValidEmail (js ''12@gmail.com'') \<and>
   \<not> isValidEmail (js ''a..b@x.com'')"
  using isValidEmail_structure [of local labels tld] digits_only_invalid double_dot_invalid by blast

theorem isValidEmail_accepts_witness:
  "isValidEmail (js ''john.doe@company.co.uk'')"
proof -
  let ?local = "js ''john.doe''"
  let ?labels = "[js ''company'', js ''co'']"
  let ?tld = "js ''uk''"
  have e: "?local @ js ''@'' @ joinDots (?labels @ [?tld]) = js ''john.doe@company.co.uk''"
    by (simp add: joinDots_def js_def)
  have "?local \<noteq> []" "length ?local \<le> 64" "list_all isLocalChar ?local"
    "list_ex isAlpha ?local"
    "\<not> startsWith ?local (js ''.'')" "\<not> endsWith ?local (js ''.'')"
    "\<not> includes_str ?local (js ''..'')"
    by (simp_all add: js_def class_defs startsWith_def endsWith_def)
  moreover have "?labels \<noteq> []" "list_all labelShape ?labels"
    by (simp_all add: js_def labelShape_def class_defs)
  moreover have "2 \<le> length ?tld" "length ?tld \<le> 63" "list_all isAlpha ?tld"
    by (simp_all add: js_def class_defs)
  moreover have "length (?local @ js ''@'' @ joinDots (?labels @ [?tld])) \<le> 254"
    by (simp add: joinDots_def js_def)
  ultimately have "isValidEmail (?local @ js ''@'' @ joinDots (?labels @ [?tld]))"
    using isValidEmail_accepts [of ?local ?labels ?tld] by blast
  then show ?thesis by (simp only: e)
qed

text \<open>
  The claim as stated fails at \<^verbatim>\<open>a..b@x.com\<close>: it has the form \<^verbatim>\<open>local@domain.tld\<close>, its
  local part \<^verbatim>\<open>a..b\<close> contains a letter and its last label \<^verbatim>\<open>com\<close> is three letters, and
  \<open>isValidEmail\<close> returns \<open>false\<close>.
\<close>

theorem isValidEmail_form_counterexample:
  "js ''a..b@x.com'' = js ''a..b'' @ js ''@'' @ js ''x'' @ js ''.'' @ js ''com'' \<and>
   list_ex isAlpha (js ''a..b'') \<and>
   2 \<le> length (js ''com'') \<and> list_all isAlpha (js ''com'') \<and>
   \<not> isValidEmail (js ''a..b@x.com'')"
  using double_dot_invalid by (simp add: js_def isAlpha_def)

subsection \<open>getEmailValidationError\<close>

text \<open>
  C10. For every input string, \<open>getEmailValidationError\<close> returns \<open>null\<close> if and only if
  \<open>isValidEmail\<close> returns \<open>true\<close>; whenever it returns a message, \<open>isValidEmail\<close> returns
  \<open>false\<close>.
\<close>

theorem getEmailValidationError_iff:
  "(getEmailValidationError e = None \<longleftrightarrow> isValidEmail e) \<and>
   (\<forall>m. getEmailValidationError e = Some m \<longrightarrow> \<not> isValidEmail e)"
  using error_None_valid [of e] valid_error_None [of e] by auto

theorem getEmailValidationError_iff_witness:
  "isValidEmail (js ''john.doe@company.co.uk'') \<and>
   getEmailValidationError (js ''john.doe@company.co.uk'') = None \<and>
   getEmailValidationError (js ''12@gmail.com'') =
     Some (js ''Username must contain at least one letter'') \<and>
   \<not> isValidEmail (js ''12@gmail.com'')"
proof -
  have "isValidEmail (js ''john.doe@company.co.uk'')"
    using isValidEmail_structure [of "js ''john.doe''" "[js ''company'', js ''co'']" "js ''uk''"]
    by (simp add: joinDots_def js_def labelShape_def class_defs startsWith_def endsWith_def)
  moreover from this getEmailValidationError_iff [of "js ''john.doe@company.co.uk''"]
  have "getEmailValidationError (js ''john.doe@company.co.uk'') = None" by blast
  moreover from digits_only_error getEmailValidationError_iff [of "js ''12@gmail.com''"]
  have "\<not> isValidEmail (js ''12@gmail.com'')" by blast
  ultimately show ?thesis using digits_only_error by blast
qed

section \<open>Properties of the generated ids\<close>

lemma decimal_inj: "decimal n = decimal m \<Longrightarrow> n = m"
  by (metis digitsValue_decimal)

lemma append_sep_eq:
  assumes "sep \<notin> set a" "sep \<notin> set b" "a @ sep # s = b @ sep # t"
  shows "a = b \<and> s = t"
proof -
  have "takeWhile (\<lambda>c. c \<noteq> sep) (a @ sep # s) = a"
    using assms(1) by (induction a) auto
  moreover have "takeWhile (\<lambda>c. c \<noteq> sep) (b @ sep # t) = b"
    using assms(2) by (induction b) auto
  ultimately have "a = b" using assms(3) by simp
  with assms(3) show ?thesis by simp
qed

lemma decimal_no_underscore: "95 \<notin> set (decimal n)"
  using decimal_digits [of n] by (auto simp: list_all_iff isDigit_def)

text \<open>
  Two calls of \<open>generateId\<close> return the same id exactly when they read the same
  millisecond from the clock and the random numbers they draw agree in the nine
  characters kept of them.
\<close>

lemma generateId_inj:
  "generateId n r = generateId m q \<longleftrightarrow> n = m \<and> substr r 2 9 = substr q 2 9"
proof
  assume "generateId n r = generateId m q"
  then have "decimal n @ 95 # substr r 2 9 = decimal m @ 95 # substr q 2 9"
    by (simp add: generateId_def js_def)
  from append_sep_eq [OF decimal_no_underscore decimal_no_underscore this]
  show "n = m \<and> substr r 2 9 = substr q 2 9" by (auto dest: decimal_inj)
next
  assume "n = m \<and> substr r 2 9 = substr q 2 9"
  then show "generateId n r = generateId m q" by (simp add: generateId_def)
qed


end
